theory Spec2Isabelle
  imports Main "HOL-Library.Char_ord" "HOL-Library.List_Lexorder" "HOL-Library.Sublist"
begin

section \<open>Strings and identifiers\<close>

text \<open>
  A Python \<open>str\<close> is modelled as a \<open>string\<close>, one \<open>char\<close> per code point; a \<open>char\<close> has
  eight bits, so the model covers the code points below 256. The predicates below are
  Python's \<open>str.isspace\<close> (the characters \<open>str.strip\<close> removes and \<open>\s\<close> matches), the
  regular expression class \<open>\d\<close> and \<open>str.lower\<close> on that range.
\<close>

definition is_space :: "char \<Rightarrow> bool" where
  "is_space c =
     (let n = (of_char c :: nat) in (9 \<le> n \<and> n \<le> 13) \<or> (28 \<le> n \<and> n \<le> 32) \<or> n = 133 \<or> n = 160)"

definition is_digit :: "char \<Rightarrow> bool" where
  "is_digit c = (let n = (of_char c :: nat) in 48 \<le> n \<and> n \<le> 57)"

definition digit_of :: "char \<Rightarrow> int" where
  "digit_of c = int (of_char c) - 48"

text \<open>The capital letters and their small letters: \<open>A\<close> to \<open>Z\<close>, and the capital letters
  of the code points 192 to 222.\<close>

definition capitals :: string where
  "capitals = ''ABCDEFGHIJKLMNOPQRSTUVWXYZ'' @
        [CHR 0xC0, CHR 0xC1, CHR 0xC2, CHR 0xC3, CHR 0xC4, CHR 0xC5, CHR 0xC6, CHR 0xC7, CHR 0xC8, CHR 0xC9,
         CHR 0xCA, CHR 0xCB, CHR 0xCC, CHR 0xCD, CHR 0xCE, CHR 0xCF, CHR 0xD0, CHR 0xD1, CHR 0xD2, CHR 0xD3,
         CHR 0xD4, CHR 0xD5, CHR 0xD6, CHR 0xD8, CHR 0xD9, CHR 0xDA, CHR 0xDB, CHR 0xDC, CHR 0xDD, CHR 0xDE]"

definition smalls :: string where
  "smalls = ''abcdefghijklmnopqrstuvwxyz'' @
        [CHR 0xE0, CHR 0xE1, CHR 0xE2, CHR 0xE3, CHR 0xE4, CHR 0xE5, CHR 0xE6, CHR 0xE7, CHR 0xE8, CHR 0xE9,
         CHR 0xEA, CHR 0xEB, CHR 0xEC, CHR 0xED, CHR 0xEE, CHR 0xEF, CHR 0xF0, CHR 0xF1, CHR 0xF2, CHR 0xF3,
         CHR 0xF4, CHR 0xF5, CHR 0xF6, CHR 0xF8, CHR 0xF9, CHR 0xFA, CHR 0xFB, CHR 0xFC, CHR 0xFD, CHR 0xFE]"

definition lower_char :: "char \<Rightarrow> char" where
  "lower_char c = (case map_of (zip capitals smalls) c of None \<Rightarrow> c | Some l \<Rightarrow> l)"

definition lower :: "string \<Rightarrow> string" where
  "lower s = map lower_char s"

text \<open>\<open>s.strip()\<close>: white space removed at both ends.\<close>

definition strip :: "string \<Rightarrow> string" where
  "strip s = rev (dropWhile is_space (rev (dropWhile is_space s)))"

definition startswith :: "string \<Rightarrow> string \<Rightarrow> bool" where
  "startswith s p = (take (length p) s = p)"

text \<open>\<open>s.rsplit("/", 1)[-1]\<close>: what follows the last slash, the whole string without one.\<close>

definition rsplit_last :: "string \<Rightarrow> string" where
  "rsplit_last s = rev (takeWhile (\<lambda>c. c \<noteq> CHR ''/'') (rev s))"

text \<open>\<open>re.fullmatch(r"Q\d+", s)\<close>.\<close>

fun fullmatch_qid :: "string \<Rightarrow> bool" where
  "fullmatch_qid [] = False"
| "fullmatch_qid (c # ds) = (c = CHR ''Q'' \<and> ds \<noteq> [] \<and> list_all is_digit ds)"

text \<open>
  The exceptions a run can end with. \<open>ValueError\<close> is raised by \<open>normalize_qid\<close>, with
  the message given, and by \<open>strptime\<close> (its messages are abbreviated: \<open>except Exception\<close>
  discards them). \<open>AttributeError\<close> and \<open>TypeError\<close> are raised by an operation on a value
  of another type than the code expects, \<open>RecursionError\<close> by the interpreter when calls
  nest deeper than its limit; their messages are left out.

  \<open>IllTyped\<close> is no exception of the source. The fields of \<open>Person\<close> are annotated
  \<open>str | None\<close>, and the model has them so. Where \<open>fetch_person\<close> builds a \<open>Person\<close> with a
  field that holds another value (a label given as a number, a date given as a list), the
  source goes on with that value; the model does not follow it and ends with \<open>IllTyped\<close>.
\<close>

datatype error = ValueError string | AttributeError | TypeError | RecursionError | IllTyped

definition normalize_qid :: "string \<Rightarrow> error + string" where
  "normalize_qid q0 =
     (let q1 = strip q0;
          q2 = (if startswith q1 ''http'' then rsplit_last q1 else q1)
      in if \<not> fullmatch_qid q2 then Inl (ValueError (''Invalid QID: '' @ q2)) else Inr q2)"

section \<open>Dates\<close>

datatype date = Date (year: int) (month: int) (day: int)

text \<open>Python compares dates by year, then month, then day.\<close>

definition date_less :: "date \<Rightarrow> date \<Rightarrow> bool" where
  "date_less a b =
     (year a < year b \<or> (year a = year b \<and> (month a < month b \<or> (month a = month b \<and> day a < day b))))"

definition date_le :: "date \<Rightarrow> date \<Rightarrow> bool" where
  "date_le a b = (a = b \<or> date_less a b)"

definition CUTOFF_DATE :: date where
  "CUTOFF_DATE = Date 1444 11 11"

definition is_leap :: "int \<Rightarrow> bool" where
  "is_leap y = (y mod 4 = 0 \<and> (y mod 100 \<noteq> 0 \<or> y mod 400 = 0))"

definition days_in_month :: "int \<Rightarrow> int \<Rightarrow> int" where
  "days_in_month y m =
     (if m = 2 then (if is_leap y then 29 else 28)
      else if m = 4 \<or> m = 6 \<or> m = 9 \<or> m = 11 then 30 else 31)"

text \<open>
  \<open>datetime.strptime(s, "%Y-%m-%d")\<close>. The format compiles to the regular expression
  \<open>(\d\d\d\d)-(1[0-2]|0[1-9]|[1-9])-(3[0-1]|[1-2]\d|0[1-9]|[1-9]| [1-9])\<close>, matched at the
  start of \<open>s\<close>; text left over after the match and a date that does not exist
  (year 0, 30 February) raise \<open>ValueError\<close>. Each matcher lists the alternatives that
  match, in the order the regular expression tries them, with the text that remains.
\<close>

fun match_year :: "string \<Rightarrow> (int \<times> string) list" where
  "match_year (a # b # c # d # rest) =
     (if is_digit a \<and> is_digit b \<and> is_digit c \<and> is_digit d
      then [(1000 * digit_of a + 100 * digit_of b + 10 * digit_of c + digit_of d, rest)] else [])"
| "match_year _ = []"

fun match_lit :: "char \<Rightarrow> string \<Rightarrow> string list" where
  "match_lit x (c # rest) = (if c = x then [rest] else [])"
| "match_lit x [] = []"

text \<open>Two characters \<open>a\<close>, \<open>b\<close> with \<open>P a\<close> and \<open>Q b\<close>, read as the number \<open>ab\<close>.\<close>

fun match_two :: "(char \<Rightarrow> bool) \<Rightarrow> (char \<Rightarrow> bool) \<Rightarrow> string \<Rightarrow> (int \<times> string) list" where
  "match_two P Q (a # b # rest) =
     (if P a \<and> Q b then [((if is_digit a then 10 * digit_of a else 0) + digit_of b, rest)] else [])"
| "match_two P Q _ = []"

fun match_one :: "(char \<Rightarrow> bool) \<Rightarrow> string \<Rightarrow> (int \<times> string) list" where
  "match_one P (a # rest) = (if P a then [(digit_of a, rest)] else [])"
| "match_one P [] = []"

definition in_range :: "char \<Rightarrow> char \<Rightarrow> char \<Rightarrow> bool" where
  "in_range lo hi c = ((of_char lo :: nat) \<le> of_char c \<and> (of_char c :: nat) \<le> of_char hi)"

definition match_month :: "string \<Rightarrow> (int \<times> string) list" where
  "match_month s =
     match_two (\<lambda>c. c = CHR ''1'') (in_range CHR ''0'' CHR ''2'') s
     @ match_two (\<lambda>c. c = CHR ''0'') (in_range CHR ''1'' CHR ''9'') s
     @ match_one (in_range CHR ''1'' CHR ''9'') s"

definition match_day :: "string \<Rightarrow> (int \<times> string) list" where
  "match_day s =
     match_two (\<lambda>c. c = CHR ''3'') (in_range CHR ''0'' CHR ''1'') s
     @ match_two (in_range CHR ''1'' CHR ''2'') is_digit s
     @ match_two (\<lambda>c. c = CHR ''0'') (in_range CHR ''1'' CHR ''9'') s
     @ match_one (in_range CHR ''1'' CHR ''9'') s
     @ match_two (\<lambda>c. c = CHR '' '') (in_range CHR ''1'' CHR ''9'') s"

text \<open>
  All the ways the regular expression matches a prefix of \<open>s\<close>, best first: the year,
  month and day read, and the text after the match. \<open>re.match\<close> returns the first.
\<close>

definition match_ymd :: "string \<Rightarrow> ((int \<times> int \<times> int) \<times> string) list" where
  "match_ymd s =
     concat (map (\<lambda>(y, r1). concat (map (\<lambda>r2. concat (map (\<lambda>(m, r3). concat (map (\<lambda>r4.
       map (\<lambda>(d, r5). ((y, m, d), r5)) (match_day r4)) (match_lit CHR ''-'' r3))) (match_month r2)))
         (match_lit CHR ''-'' r1))) (match_year s))"

text \<open>The constructor \<open>datetime(y, m, d)\<close>: years 1 to 9999, a day the month has.\<close>

definition make_date :: "int \<Rightarrow> int \<Rightarrow> int \<Rightarrow> error + date" where
  "make_date y m d =
     (if y < 1 \<or> 9999 < y then Inl (ValueError ''year is out of range'')
      else if m < 1 \<or> 12 < m then Inl (ValueError ''month must be in 1..12'')
      else if d < 1 \<or> days_in_month y m < d then Inl (ValueError ''day is out of range for month'')
      else Inr (Date y m d))"

definition strptime :: "string \<Rightarrow> error + date" where
  "strptime s =
     (case match_ymd s of
        [] \<Rightarrow> Inl (ValueError ''time data does not match format'')
      | ((y, m, d), rest) # _ \<Rightarrow>
          if rest \<noteq> [] then Inl (ValueError ''unconverted data remains'')
          else make_date y m d)"

text \<open>Decimal digits of a natural number, as \<open>str\<close> gives them.\<close>

fun str_nat :: "nat \<Rightarrow> string" where
  "str_nat n =
     (if n < 10 then [''0123456789'' ! n] else str_nat (n div 10) @ [''0123456789'' ! (n mod 10)])"

definition str_int :: "int \<Rightarrow> string" where
  "str_int i = (if i < 0 then CHR ''-'' # str_nat (nat (- i)) else str_nat (nat i))"

text \<open>
  An optional string that Python's \<open>if x\<close> takes as true: present and not empty.
\<close>

fun truthy :: "string option \<Rightarrow> bool" where
  "truthy None = False"
| "truthy (Some s) = (s \<noteq> [])"

definition iso_to_eu_date :: "string option \<Rightarrow> string option" where
  "iso_to_eu_date date_str =
     (if \<not> truthy date_str then None
      else case strptime (take 10 (the date_str)) of
        Inl e \<Rightarrow> None
      | Inr dt \<Rightarrow>
          if year dt \<le> 0 then None
          else Some (str_int (year dt) @ ''.'' @ str_int (month dt) @ ''.'' @ str_int (day dt)))"

definition parse_iso_date :: "string option \<Rightarrow> date option" where
  "parse_iso_date date_str =
     (if \<not> truthy date_str then None
      else case strptime (take 10 (the date_str)) of
        Inl e \<Rightarrow> None
      | Inr dt \<Rightarrow> if year dt \<le> 0 then None else Some dt)"

section \<open>Persons and the liveness predicate\<close>

record person =
  qid :: string
  label_en :: "string option"
  label_ja :: "string option"
  birth :: "string option"
  death :: "string option"
  father_qid :: "string option"
  mother_qid :: "string option"
  birth_place_en :: "string option"

definition is_alive_on :: "person \<Rightarrow> date \<Rightarrow> bool \<Rightarrow> bool" where
  "is_alive_on p on_date require_birth =
     (let b = parse_iso_date (birth p);
          d = parse_iso_date (death p)
      in if require_birth \<and> b = None then False
         else if (case b of None \<Rightarrow> False | Some bd \<Rightarrow> date_less on_date bd) then False
         else if (case d of None \<Rightarrow> False | Some dd \<Rightarrow> date_le dd on_date) then False
         else True)"

section \<open>The query oracle\<close>

text \<open>
  The remote service is outside the program. What \<open>wikidata.query().convert()\<close> returns is
  the value \<open>json.loads\<close> builds from the text of the response: \<open>None\<close>, a truth value, a
  number, a string, a list, or a dictionary with strings as keys. A dictionary is modelled
  by its entries in the order of the text; a key that occurs twice has the value of its
  last entry. A float behaves in these functions as an integer does (it is false exactly
  when it is zero, and it has none of the operations used), so numbers are integers.
\<close>

datatype json =
    JNull
  | JBool bool
  | JNum int
  | JStr string
  | JArr "json list"
  | JObj "(string \<times> json) list"

text \<open>Python's truth value of such a value (\<open>if x\<close>).\<close>

fun truthy_json :: "json \<Rightarrow> bool" where
  "truthy_json JNull = False"
| "truthy_json (JBool b) = b"
| "truthy_json (JNum n) = (n \<noteq> 0)"
| "truthy_json (JStr s) = (s \<noteq> [])"
| "truthy_json (JArr xs) = (xs \<noteq> [])"
| "truthy_json (JObj kvs) = (kvs \<noteq> [])"

text \<open>
  \<open>x[k]\<close> for a string \<open>k\<close> and \<open>x[0]\<close>, where they stand inside a \<open>try\<close> block whose
  \<open>except Exception\<close> discards the exception: the result is \<open>None\<close> when the subscript
  raises (\<open>KeyError\<close>, \<open>IndexError\<close>, \<open>TypeError\<close>). The first character of a string is a
  string.
\<close>

fun subscript_key :: "json \<Rightarrow> string \<Rightarrow> json option" where
  "subscript_key (JObj kvs) k = map_of (rev kvs) k"
| "subscript_key _ k = None"

fun subscript_0 :: "json \<Rightarrow> json option" where
  "subscript_0 (JArr (x # xs)) = Some x"
| "subscript_0 (JStr (c # cs)) = Some (JStr [c])"
| "subscript_0 _ = None"

text \<open>\<open>x.get(k, d)\<close>: only a dictionary has the method.\<close>

fun dict_get :: "json \<Rightarrow> string \<Rightarrow> json \<Rightarrow> error + json" where
  "dict_get (JObj kvs) k d = Inr (case map_of (rev kvs) k of None \<Rightarrow> d | Some v \<Rightarrow> v)"
| "dict_get _ k d = Inl AttributeError"

text \<open>\<open>b.get(name, {}).get("value")\<close> for a row \<open>b\<close>.\<close>

definition get_value :: "json \<Rightarrow> string \<Rightarrow> error + json" where
  "get_value b name =
     (case dict_get b name (JObj []) of
        Inl e \<Rightarrow> Inl e
      | Inr t \<Rightarrow> dict_get t ''value'' JNull)"

text \<open>\<open>v.rsplit("/", 1)[-1] if v else None\<close>: only a string has the method.\<close>

definition rsplit_value :: "json \<Rightarrow> error + string option" where
  "rsplit_value v =
     (if \<not> truthy_json v then Inr None
      else case v of JStr s \<Rightarrow> Inr (Some (rsplit_last s)) | _ \<Rightarrow> Inl AttributeError)"

text \<open>\<open>v[:10] if v else None\<close>: a string and a list have slices. (On a dictionary the slice
  raises \<open>TypeError\<close> up to Python 3.11 and \<open>KeyError\<close> from 3.12; the model has \<open>TypeError\<close>.)\<close>

definition first_ten :: "json \<Rightarrow> error + json" where
  "first_ten v =
     (if \<not> truthy_json v then Inr JNull
      else case v of
             JStr s \<Rightarrow> Inr (JStr (take 10 s))
           | JArr xs \<Rightarrow> Inr (JArr (take 10 xs))
           | _ \<Rightarrow> Inl TypeError)"

text \<open>The items a \<open>for\<close> loop visits: the elements of a list, the characters of a string, the
  keys of a dictionary; the other values are not iterable.\<close>

fun iterate :: "json \<Rightarrow> error + json list" where
  "iterate (JArr xs) = Inr xs"
| "iterate (JStr s) = Inr (map (\<lambda>c. JStr [c]) s)"
| "iterate (JObj kvs) = Inr (map JStr (rev (remdups (rev (map fst kvs)))))"
| "iterate _ = Inl TypeError"

text \<open>
  The answer to a query: \<open>QueryFailed\<close> when \<open>wikidata.query().convert()\<close> raises (network
  error, text that does not parse), the converted value otherwise. The oracle gives the
  answer to the attribute query and to the children query of an identifier. The delay before
  a query (\<open>sparql_sleep\<close>) passes time only and is not modelled.
\<close>

datatype response = QueryFailed | Converted json

record wikidata =
  person_query :: "string \<Rightarrow> response"
  children_query :: "string \<Rightarrow> response"

text \<open>
  A response as the service gives it: under \<open>"results"\<close> and \<open>"bindings"\<close> a list of rows, each
  row a dictionary from the variables that are bound to a term, each term a dictionary with
  the string \<open>"value"\<close>. A \<open>binding\<close> gives the value of each variable of such a row, \<open>None\<close> for
  one that is unbound; \<open>Bindings\<close> is the response with these rows and \<open>MissingKey\<close> a
  response without the key \<open>"results"\<close>.
\<close>

type_synonym binding = "string \<Rightarrow> string option"

definition variables :: "string list" where
  "variables = [''labelEn'', ''labelJa'', ''birth'', ''death'', ''father'', ''mother'',
     ''birthPlaceLabelEn'', ''child'']"

definition row_of :: "binding \<Rightarrow> json" where
  "row_of b = JObj (List.map_filter (\<lambda>v. map_option (\<lambda>s. (v, JObj [(''value'', JStr s)])) (b v)) variables)"

definition Bindings :: "binding list \<Rightarrow> response" where
  "Bindings bs = Converted (JObj [(''results'', JObj [(''bindings'', JArr (map row_of bs))])])"

definition MissingKey :: response where
  "MissingKey = Converted (JObj [])"

definition no_person :: "string \<Rightarrow> person" where
  "no_person q = \<lparr>qid = q, label_en = None, label_ja = None, birth = None, death = None,
     father_qid = None, mother_qid = None, birth_place_en = None\<rparr>"

text \<open>
  The \<open>try\<close> block of \<open>fetch_person\<close> holds the query and \<open>results["results"]["bindings"][0]\<close>:
  \<open>first_binding\<close> is the row it leaves in \<open>binding\<close>, \<open>None\<close> when the \<open>except\<close> branch is taken.
\<close>

definition first_binding :: "response \<Rightarrow> json option" where
  "first_binding r =
     (case r of
        QueryFailed \<Rightarrow> None
      | Converted results \<Rightarrow>
          Option.bind (subscript_key results ''results'')
            (\<lambda>x. Option.bind (subscript_key x ''bindings'') subscript_0))"

text \<open>Sequencing of statements that can raise.\<close>

fun and_then :: "error + 'a \<Rightarrow> ('a \<Rightarrow> error + 'b) \<Rightarrow> error + 'b" where
  "and_then (Inl e) f = Inl e"
| "and_then (Inr x) f = f x"

text \<open>A value as a field annotated \<open>str | None\<close>: \<open>None\<close> when it is neither.\<close>

fun as_field :: "json \<Rightarrow> string option option" where
  "as_field JNull = Some None"
| "as_field (JStr s) = Some (Some s)"
| "as_field _ = None"

definition typed_person ::
  "string \<Rightarrow> json \<Rightarrow> json \<Rightarrow> json \<Rightarrow> json \<Rightarrow> string option \<Rightarrow> string option \<Rightarrow> json
   \<Rightarrow> error + person" where
  "typed_person q en ja b d f m bp =
     (case (as_field en, as_field ja, as_field b, as_field d, as_field bp) of
        (Some en', Some ja', Some b', Some d', Some bp') \<Rightarrow>
          Inr \<lparr>qid = q, label_en = en', label_ja = ja', birth = b', death = d',
               father_qid = f, mother_qid = m, birth_place_en = bp'\<rparr>
      | _ \<Rightarrow> Inl IllTyped)"

text \<open>
  \<open>fetch_person\<close> after the query, \<open>read_person\<close>: the statements that read the row stand after
  the \<open>try\<close> block, in the order given here, and what they raise is not caught.
\<close>

definition read_person :: "string \<Rightarrow> response \<Rightarrow> error + person" where
  "read_person q r =
     (case first_binding r of
        None \<Rightarrow> Inr (no_person q)
      | Some binding \<Rightarrow>
          and_then (get_value binding ''labelEn'') (\<lambda>label_en.
          and_then (get_value binding ''labelJa'') (\<lambda>label_ja.
          and_then (get_value binding ''birth'') (\<lambda>birth.
          and_then (get_value binding ''death'') (\<lambda>death.
          and_then (get_value binding ''father'') (\<lambda>father.
          and_then (get_value binding ''mother'') (\<lambda>mother.
          and_then (rsplit_value father) (\<lambda>father_qid.
          and_then (rsplit_value mother) (\<lambda>mother_qid.
          and_then (get_value binding ''birthPlaceLabelEn'') (\<lambda>birth_place_en.
          and_then (first_ten birth) (\<lambda>birth10.
          and_then (first_ten death) (\<lambda>death10.
            typed_person q label_en label_ja birth10 death10 father_qid mother_qid
              birth_place_en))))))))))))"

definition fetch_person :: "wikidata \<Rightarrow> string \<Rightarrow> error + person" where
  "fetch_person env q0 =
     (case normalize_qid q0 of
        Inl e \<Rightarrow> Inl e
      | Inr q \<Rightarrow> read_person q (person_query env q))"

text \<open>
  The \<open>try\<close> block of \<open>fetch_children_qids\<close> holds the query and
  \<open>results.get("results", {}).get("bindings", [])\<close>: \<open>children_bindings\<close> is the value it leaves
  in \<open>bindings\<close>, \<open>None\<close> when the \<open>except\<close> branch is taken.
\<close>

definition children_bindings :: "response \<Rightarrow> json option" where
  "children_bindings r =
     (case r of
        QueryFailed \<Rightarrow> None
      | Converted results \<Rightarrow>
          (case dict_get results ''results'' (JObj []) of
             Inl e \<Rightarrow> None
           | Inr x \<Rightarrow>
               (case dict_get x ''bindings'' (JArr []) of
                  Inl e \<Rightarrow> None
                | Inr bindings \<Rightarrow> Some bindings)))"

text \<open>The body of the loop \<open>for b in bindings\<close> over the items still to visit; \<open>children\<close> is the
  list built so far.\<close>

fun children_loop :: "json list \<Rightarrow> string list \<Rightarrow> error + string list" where
  "children_loop [] children = Inr children"
| "children_loop (b # bs) children =
     (case get_value b ''child'' of
        Inl e \<Rightarrow> Inl e
      | Inr child \<Rightarrow>
          if \<not> truthy_json child then children_loop bs children
          else
            (case child of
               JStr s \<Rightarrow>
                 (let child_qid = rsplit_last s
                  in if fullmatch_qid child_qid then children_loop bs (children @ [child_qid])
                     else children_loop bs children)
             | _ \<Rightarrow> Inl AttributeError))"

text \<open>\<open>fetch_children_qids\<close> after the query: the loop stands after the \<open>try\<close> block.\<close>

definition read_children :: "response \<Rightarrow> error + string list" where
  "read_children r =
     (case children_bindings r of
        None \<Rightarrow> Inr []
      | Some bindings \<Rightarrow>
          (case iterate bindings of
             Inl e \<Rightarrow> Inl e
           | Inr items \<Rightarrow> children_loop items []))"

definition fetch_children_qids :: "wikidata \<Rightarrow> string \<Rightarrow> error + string list" where
  "fetch_children_qids env q0 =
     (case normalize_qid q0 of
        Inl e \<Rightarrow> Inl e
      | Inr q \<Rightarrow> read_children (children_query env q))"

section \<open>Tokens and local identifiers\<close>

text \<open>
  \<open>re.sub(r"C+", "_", s)\<close> for a character class \<open>C\<close>: every maximal run of characters of
  the class becomes one underscore.
\<close>

function sub_runs :: "(char \<Rightarrow> bool) \<Rightarrow> string \<Rightarrow> string" where
  "sub_runs P [] = []"
| "sub_runs P (c # cs) =
     (if P c then CHR ''_'' # sub_runs P (dropWhile P cs) else c # sub_runs P cs)"
  by pat_completeness auto
termination
  by (relation "measure (\<lambda>(P, s). length s)") (auto simp: length_dropWhile_le less_Suc_eq_le)

definition strip_chars :: "char \<Rightarrow> string \<Rightarrow> string" where
  "strip_chars x s = rev (dropWhile (\<lambda>c. c = x) (rev (dropWhile (\<lambda>c. c = x) s)))"

text \<open>
  The first two statements of \<open>slugify_to_token\<close>, on one character: its decomposition
  \<open>unicodedata.normalize("NFKD", ch)\<close> without the combining characters. The table lists
  the code points below 256 that change (Unicode 14). Two code points of the results lie
  outside the model, the Greek letter mu (from the micro sign) and the fraction slash (from
  the fractions); the table has the micro sign and the slash in their place: like these they
  are left alone by \<open>lower\<close> and are no letter \<open>a\<close> to \<open>z\<close> and no digit, which is all the
  statements that follow look at.
\<close>

definition decomposed :: "(char \<times> string) list" where
  "decomposed =
     [(CHR 0xA0, '' ''), (CHR 0xA8, '' ''), (CHR 0xAA, ''a''), (CHR 0xAF, '' ''),
      (CHR 0xB2, ''2''), (CHR 0xB3, ''3''), (CHR 0xB4, '' ''), (CHR 0xB5, [CHR 0xB5]),
      (CHR 0xB8, '' ''), (CHR 0xB9, ''1''), (CHR 0xBA, ''o''), (CHR 0xBC, ''1/4''),
      (CHR 0xBD, ''1/2''), (CHR 0xBE, ''3/4''), (CHR 0xC0, ''A''), (CHR 0xC1, ''A''),
      (CHR 0xC2, ''A''), (CHR 0xC3, ''A''), (CHR 0xC4, ''A''), (CHR 0xC5, ''A''),
      (CHR 0xC7, ''C''), (CHR 0xC8, ''E''), (CHR 0xC9, ''E''), (CHR 0xCA, ''E''),
      (CHR 0xCB, ''E''), (CHR 0xCC, ''I''), (CHR 0xCD, ''I''), (CHR 0xCE, ''I''),
      (CHR 0xCF, ''I''), (CHR 0xD1, ''N''), (CHR 0xD2, ''O''), (CHR 0xD3, ''O''),
      (CHR 0xD4, ''O''), (CHR 0xD5, ''O''), (CHR 0xD6, ''O''), (CHR 0xD9, ''U''),
      (CHR 0xDA, ''U''), (CHR 0xDB, ''U''), (CHR 0xDC, ''U''), (CHR 0xDD, ''Y''),
      (CHR 0xE0, ''a''), (CHR 0xE1, ''a''), (CHR 0xE2, ''a''), (CHR 0xE3, ''a''),
      (CHR 0xE4, ''a''), (CHR 0xE5, ''a''), (CHR 0xE7, ''c''), (CHR 0xE8, ''e''),
      (CHR 0xE9, ''e''), (CHR 0xEA, ''e''), (CHR 0xEB, ''e''), (CHR 0xEC, ''i''),
      (CHR 0xED, ''i''), (CHR 0xEE, ''i''), (CHR 0xEF, ''i''), (CHR 0xF1, ''n''),
      (CHR 0xF2, ''o''), (CHR 0xF3, ''o''), (CHR 0xF4, ''o''), (CHR 0xF5, ''o''),
      (CHR 0xF6, ''o''), (CHR 0xF9, ''u''), (CHR 0xFA, ''u''), (CHR 0xFB, ''u''),
      (CHR 0xFC, ''u''), (CHR 0xFD, ''y''), (CHR 0xFF, ''y'')]"

definition nfkd_base :: "char \<Rightarrow> string" where
  "nfkd_base c = (case map_of decomposed c of None \<Rightarrow> [c] | Some s \<Rightarrow> s)"

definition slugify_to_token :: "string \<Rightarrow> string" where
  "slugify_to_token v =
     (let v0 = concat (map nfkd_base v);
          v1 = lower v0;
          v2 = sub_runs (\<lambda>c. \<not> (in_range CHR ''a'' CHR ''z'' c \<or> in_range CHR ''0'' CHR ''9'' c)) v1;
          v3 = strip_chars CHR ''_'' (sub_runs (\<lambda>c. c = CHR ''_'') v2)
      in if v3 = [] then ''unknown'' else v3)"

text \<open>\<open>x or ""\<close> for an optional string.\<close>

definition or_empty :: "string option \<Rightarrow> string" where
  "or_empty x = (case x of None \<Rightarrow> [] | Some s \<Rightarrow> s)"

definition make_character_id_from_person :: "person \<Rightarrow> string \<Rightarrow> string" where
  "make_character_id_from_person p id_prefix =
     (let label = strip (or_empty (label_en p))
      in if label \<noteq> [] then id_prefix @ slugify_to_token label
         else id_prefix @ lower (qid p))"

text \<open>
  \<open>extract_given_name\<close>: the last part of \<open>re.split(r"\s+", label)\<close>. The label is stripped
  and not empty there, so that part is what follows its last white space.
\<close>

definition extract_given_name :: "string \<Rightarrow> string" where
  "extract_given_name label0 =
     (let label = strip label0
      in if label = [] then [] else rev (takeWhile (\<lambda>c. \<not> is_space c) (rev label)))"

definition make_name_token :: "person \<Rightarrow> string \<Rightarrow> string \<Rightarrow> string" where
  "make_name_token p name_prefix fallback_prefix =
     (let base = strip (or_empty (label_en p))
      in if base \<noteq> [] then
           (let given = extract_given_name base
            in if given \<noteq> [] then name_prefix @ slugify_to_token given
               else name_prefix @ slugify_to_token base)
         else fallback_prefix @ lower (qid p))"

section \<open>Configuration and the state of a run\<close>

text \<open>
  The keyword arguments of \<open>emit_person_with_ancestors_and_descendants\<close> (\<open>sleep_time\<close> apart).
\<close>

record config =
  id_prefix :: string
  name_prefix :: string
  name_fallback_prefix :: string
  culture :: string
  religion :: string
  dynasty :: "string option"
  tag :: "string option"
  birth_location :: "string option"
  max_ancestor_depth :: int
  max_descendant_depth :: int
  ensure_fathers_depth :: int
  include_root_if_not_alive :: bool
  descendants_require_birth :: bool

text \<open>
  One line of a character entry, by the statement that appends it; \<open>line_text\<close> is the text
  the statement formats. What is printed is a blank line (\<open>print()\<close>) or an entry.
\<close>

datatype line =
    Header string "string option" string
  | First_name string
  | Culture string
  | Religion string
  | Birth_date string
  | Death_date string
  | Birth string
  | Birth_todo string
  | Dynasty string
  | Father string
  | Mother string
  | Tag string
  | Close

fun line_text :: "line \<Rightarrow> string" where
  "line_text (Header char_id ja q) =
     ''    '' @ char_id @ '' = {'' @ (if truthy ja then '' # '' @ the ja else []) @ '' ('' @ q @ '')''"
| "line_text (First_name n) = ''        first_name = { name = '' @ n @ '' }''"
| "line_text (Culture c) = ''        culture = '' @ c"
| "line_text (Religion r) = ''        religion = '' @ r"
| "line_text (Birth_date d) = ''        birth_date = '' @ d"
| "line_text (Death_date d) = ''        death_date = '' @ d"
| "line_text (Birth b) = ''        birth = '' @ b"
| "line_text (Birth_todo b) = ''        # birth = <TODO>  # Wikidata birthplace: '' @ b"
| "line_text (Dynasty d) = ''        dynasty = '' @ d"
| "line_text (Father f) = ''        father = '' @ f"
| "line_text (Mother m) = ''        mother = '' @ m"
| "line_text (Tag t) = ''        tag = '' @ t"
| "line_text Close = ''    }''"

datatype printed = Blank | Entry "line list"

text \<open>
  The variables the nested functions of \<open>emit_person_with_ancestors_and_descendants\<close> share.
  \<open>person_cache\<close> is left out: the oracle answers by identifier, so the cached record and
  a fetched one are the same (a call that raises caches nothing) and \<open>get_person\<close> is
  \<open>fetch_person\<close> after \<open>normalize_qid\<close>.
  Two fields are not variables of the source, they record what the collectors do:
  \<open>ancestor_calls\<close> lists, in order, the calls of \<open>gather_ancestors\<close> that pass the visited
  guard (identifier and depth), \<open>descendant_calls\<close> the calls of \<open>gather_descendants_alive\<close>
  that fetch children (identifier and remaining depth). \<open>stdout\<close> is what was printed.
\<close>

record state =
  qid_to_char_id :: "string \<rightharpoonup> string"
  used_char_ids :: "string \<rightharpoonup> string"
  ancestor_qids :: "string set"
  descendant_qids :: "string set"
  visited_ancestors :: "string set"
  all_qids :: "string set"
  emitted :: "string set"
  stdout :: "printed list"
  ancestor_calls :: "(string \<times> int) list"
  descendant_calls :: "(string \<times> int) list"

definition init_state :: state where
  "init_state = \<lparr>qid_to_char_id = Map.empty, used_char_ids = Map.empty, ancestor_qids = {},
     descendant_qids = {}, visited_ancestors = {}, all_qids = {}, emitted = {}, stdout = [],
     ancestor_calls = [], descendant_calls = []\<rparr>"

definition get_person :: "wikidata \<Rightarrow> string \<Rightarrow> error + person" where
  "get_person wd q0 =
     (case normalize_qid q0 of Inl e \<Rightarrow> Inl e | Inr q \<Rightarrow> fetch_person wd q)"

section \<open>The Identifier Allocator\<close>

definition id_for_qid :: "wikidata \<Rightarrow> config \<Rightarrow> string \<Rightarrow> state \<Rightarrow> error + (string \<times> state)" where
  "id_for_qid wd cfg q0 st =
     (case normalize_qid q0 of
        Inl e \<Rightarrow> Inl e
      | Inr q \<Rightarrow>
          (case qid_to_char_id st q of
             Some c \<Rightarrow> Inr (c, st)
           | None \<Rightarrow>
               (case get_person wd q of
                  Inl e \<Rightarrow> Inl e
                | Inr p \<Rightarrow>
                    (let candidate = make_character_id_from_person p (id_prefix cfg);
                         existing = used_char_ids st candidate;
                         candidate' = (if truthy existing \<and> existing \<noteq> Some q
                                       then candidate @ ''_'' @ lower q else candidate)
                     in Inr (candidate',
                          st\<lparr>qid_to_char_id := (qid_to_char_id st)(q \<mapsto> candidate'),
                             used_char_ids := (used_char_ids st)(candidate' \<mapsto> q)\<rparr>)))))"

section \<open>The Record Renderer\<close>

text \<open>
  \<open>render_character_entry\<close> returns the lines it built (the source joins them with
  newlines) and the state, which \<open>id_for_qid\<close> may have changed. \<open>known_qids\<close> is
  \<open>None\<close> or a set.
\<close>

definition render_character_entry ::
  "wikidata \<Rightarrow> config \<Rightarrow> person \<Rightarrow> string \<Rightarrow> bool \<Rightarrow> string set option \<Rightarrow> state
   \<Rightarrow> error + (line list \<times> state)" where
  "render_character_entry wd cfg p char_id include_parent_refs known_qids st =
     (let lines0 = [Header char_id (label_ja p) (qid p),
                    First_name (make_name_token p (name_prefix cfg) (name_fallback_prefix cfg)),
                    Culture (culture cfg), Religion (religion cfg)];
          eu_birth = iso_to_eu_date (birth p);
          eu_death = iso_to_eu_date (death p);
          death_dt = parse_iso_date (death p);
          lines1 = lines0 @ (if truthy eu_birth then [Birth_date (the eu_birth)] else []);
          lines2 = lines1 @ (if truthy eu_death \<and> death_dt \<noteq> None \<and> date_le (the death_dt) CUTOFF_DATE
                             then [Death_date (the eu_death)] else []);
          lines3 = lines2 @ (if truthy (birth_location cfg) then [Birth (the (birth_location cfg))]
                             else if truthy (birth_place_en p) then [Birth_todo (the (birth_place_en p))]
                             else []);
          lines4 = lines3 @ (if truthy (dynasty cfg) then [Dynasty (the (dynasty cfg))] else []);
          tail = (if truthy (tag cfg) then [Tag (the (tag cfg))] else []) @ [Close]
      in if \<not> include_parent_refs then Inr (lines4 @ tail, st)
         else
           (case (if truthy (father_qid p)
                  then (case id_for_qid wd cfg (the (father_qid p)) st of
                          Inl e \<Rightarrow> Inl e
                        | Inr (f, st1) \<Rightarrow> Inr (lines4 @ [Father f], st1))
                  else Inr (lines4, st)) of
              Inl e \<Rightarrow> Inl e
            | Inr (lines5, st1) \<Rightarrow>
                (if truthy (mother_qid p) \<and>
                    (case known_qids of None \<Rightarrow> True | Some known \<Rightarrow> the (mother_qid p) \<in> known)
                 then (case id_for_qid wd cfg (the (mother_qid p)) st1 of
                         Inl e \<Rightarrow> Inl e
                       | Inr (m, st2) \<Rightarrow> Inr (lines5 @ [Mother m] @ tail, st2))
                 else Inr (lines5 @ tail, st1))))"

section \<open>The Ancestor Collector\<close>

text \<open>
  \<open>include_root_entry\<close> is the variable of that name, fixed before the traversal starts.
\<close>

function gather_ancestors ::
  "wikidata \<Rightarrow> config \<Rightarrow> bool \<Rightarrow> string \<Rightarrow> int \<Rightarrow> state \<Rightarrow> error + state" where
  "gather_ancestors wd cfg include_root_entry q0 depth st =
     (case normalize_qid q0 of
        Inl e \<Rightarrow> Inl e
      | Inr q \<Rightarrow>
          if q \<in> visited_ancestors st then Inr st
          else
            (let st1 = st\<lparr>visited_ancestors := insert q (visited_ancestors st),
                          ancestor_calls := ancestor_calls st @ [(q, depth)]\<rparr>
             in case get_person wd q of
                  Inl e \<Rightarrow> Inl e
                | Inr p \<Rightarrow>
                    (let st2 = (if depth = 0
                                then (if include_root_entry
                                      then st1\<lparr>ancestor_qids := insert q (ancestor_qids st1)\<rparr>
                                      else st1)
                                else (if is_alive_on p CUTOFF_DATE True
                                      then st1\<lparr>ancestor_qids := insert q (ancestor_qids st1)\<rparr>
                                      else st1))
                     in if depth \<ge> max_ancestor_depth cfg then Inr st2
                        else
                          (case (if truthy (father_qid p)
                                 then gather_ancestors wd cfg include_root_entry (the (father_qid p)) (depth + 1) st2
                                 else Inr st2) of
                             Inl e \<Rightarrow> Inl e
                           | Inr st3 \<Rightarrow>
                               if truthy (mother_qid p)
                               then gather_ancestors wd cfg include_root_entry (the (mother_qid p)) (depth + 1) st3
                               else Inr st3))))"
  by pat_completeness auto
termination
  by (relation "measure (\<lambda>(wd, cfg, inc, q0, depth, st). nat (max_ancestor_depth cfg - depth))") auto

declare gather_ancestors.simps [simp del]

section \<open>The Descendant Collector\<close>

text \<open>
  \<open>gather_descendants_alive\<close> and its loop over the children fetched, \<open>descendants_loop\<close>,
  whose list argument is what the loop has still to visit.
\<close>

function gather_descendants_alive ::
    "wikidata \<Rightarrow> config \<Rightarrow> string \<Rightarrow> int \<Rightarrow> state \<Rightarrow> error + state"
  and descendants_loop ::
    "wikidata \<Rightarrow> config \<Rightarrow> string list \<Rightarrow> int \<Rightarrow> state \<Rightarrow> error + state" where
  "gather_descendants_alive wd cfg q depth_remaining st =
     (if depth_remaining \<le> 0 then Inr st
      else
        (case fetch_children_qids wd q of
           Inl e \<Rightarrow> Inl e
         | Inr cs \<Rightarrow>
             descendants_loop wd cfg cs depth_remaining
               (st\<lparr>descendant_calls := descendant_calls st @ [(q, depth_remaining)]\<rparr>)))"
| "descendants_loop wd cfg [] depth_remaining st = Inr st"
| "descendants_loop wd cfg (child_qid # cs) depth_remaining st =
     (case get_person wd child_qid of
        Inl e \<Rightarrow> Inl e
      | Inr child \<Rightarrow>
          if \<not> is_alive_on child CUTOFF_DATE (descendants_require_birth cfg)
          then descendants_loop wd cfg cs depth_remaining st
          else if qid child \<in> descendant_qids st
          then descendants_loop wd cfg cs depth_remaining st
          else
            (case gather_descendants_alive wd cfg (qid child) (depth_remaining - 1)
                    (st\<lparr>descendant_qids := insert (qid child) (descendant_qids st)\<rparr>) of
               Inl e \<Rightarrow> Inl e
             | Inr st' \<Rightarrow> descendants_loop wd cfg cs depth_remaining st'))"
  by pat_completeness auto
termination
  by (relation "inv_image (less_than <*lex*> less_than)
        (\<lambda>x. case x of
           Inl (wd, cfg, q, r, st) \<Rightarrow> (if r \<le> 0 then 0 else 2 * nat r, 0)
         | Inr (wd, cfg, cs, r, st) \<Rightarrow> (if r \<le> 0 then 1 else 2 * nat r - 1, length cs))")
    auto

declare gather_descendants_alive.simps [simp del]


section \<open>The Lineage Completer\<close>

text \<open>
  The inner loop \<open>for qid in frontier\<close> and the rounds \<open>for _ in range(ensure_fathers_depth)\<close>.
  Python visits a set in an order it does not specify; the model visits it in ascending
  order. The sets the loop builds do not depend on the order.
\<close>

fun fathers_loop ::
  "wikidata \<Rightarrow> string list \<Rightarrow> state \<Rightarrow> string set \<Rightarrow> error + (state \<times> string set)" where
  "fathers_loop wd [] st next_frontier = Inr (st, next_frontier)"
| "fathers_loop wd (q # qs) st next_frontier =
     (case get_person wd q of
        Inl e \<Rightarrow> Inl e
      | Inr p \<Rightarrow>
          if truthy (father_qid p) \<and> the (father_qid p) \<notin> all_qids st
          then fathers_loop wd qs (st\<lparr>all_qids := insert (the (father_qid p)) (all_qids st)\<rparr>)
                 (insert (the (father_qid p)) next_frontier)
          else fathers_loop wd qs st next_frontier)"

fun ensure_fathers :: "wikidata \<Rightarrow> nat \<Rightarrow> string set \<Rightarrow> state \<Rightarrow> error + state" where
  "ensure_fathers wd 0 frontier st = Inr st"
| "ensure_fathers wd (Suc n) frontier st =
     (case fathers_loop wd (sorted_list_of_set frontier) st {} of
        Inl e \<Rightarrow> Inl e
      | Inr (st', next_frontier) \<Rightarrow>
          if next_frontier = {} then Inr st' else ensure_fathers wd n next_frontier st')"

section \<open>The Topological Emitter\<close>

text \<open>
  The end of \<open>emit_parents_first\<close>, after the two recursive calls: the separating blank
  line, the entry, and the identifier added to \<open>emitted\<close>. \<open>id_for_qid(person.qid)\<close> is an
  argument of \<open>render_character_entry\<close> and is evaluated before the call.
\<close>

definition print_entry :: "wikidata \<Rightarrow> config \<Rightarrow> string \<Rightarrow> person \<Rightarrow> state \<Rightarrow> error + state" where
  "print_entry wd cfg q p st =
     (let st1 = (if emitted st \<noteq> {} then st\<lparr>stdout := stdout st @ [Blank]\<rparr> else st)
      in case id_for_qid wd cfg (qid p) st1 of
           Inl e \<Rightarrow> Inl e
         | Inr (char_id, st2) \<Rightarrow>
             (case render_character_entry wd cfg p char_id True (Some (all_qids st2)) st2 of
                Inl e \<Rightarrow> Inl e
              | Inr (ls, st3) \<Rightarrow>
                  Inr (st3\<lparr>stdout := stdout st3 @ [Entry ls], emitted := insert q (emitted st3)\<rparr>)))"

text \<open>
  \<open>emit_parents_first\<close> recurses on the parents before it adds the identifier to \<open>emitted\<close>,
  so the set does not bound the depth of the recursion; the interpreter does. \<open>frames\<close> is
  the number of nested calls of \<open>emit_parents_first\<close> the interpreter still allows (its
  recursion limit, 1000 unless changed, less the calls already on the stack): a call made
  when none is left raises \<open>RecursionError\<close>. Only these calls are counted. What the body
  calls needs a few frames of its own, so close to the limit the error can arise in one of
  those calls instead, and inside the \<open>try\<close> of \<open>fetch_person\<close> it would be discarded; the
  model does not follow that. The collectors recurse no deeper than their depth options
  and are modelled without the limit.
\<close>

fun emit_parents_first :: "wikidata \<Rightarrow> config \<Rightarrow> nat \<Rightarrow> string \<Rightarrow> state \<Rightarrow> error + state" where
  "emit_parents_first wd cfg 0 q0 st = Inl RecursionError"
| "emit_parents_first wd cfg (Suc frames) q0 st =
     (case normalize_qid q0 of
        Inl e \<Rightarrow> Inl e
      | Inr q \<Rightarrow>
          if q \<in> emitted st then Inr st
          else
            (case get_person wd q of
               Inl e \<Rightarrow> Inl e
             | Inr p \<Rightarrow>
                 (case (if truthy (father_qid p) \<and> the (father_qid p) \<in> all_qids st
                        then emit_parents_first wd cfg frames (the (father_qid p)) st
                        else Inr st) of
                    Inl e \<Rightarrow> Inl e
                  | Inr st1 \<Rightarrow>
                      (case (if truthy (mother_qid p) \<and> the (mother_qid p) \<in> all_qids st1
                             then emit_parents_first wd cfg frames (the (mother_qid p)) st1
                             else Inr st1) of
                         Inl e \<Rightarrow> Inl e
                       | Inr st2 \<Rightarrow> print_entry wd cfg q p st2))))"

declare emit_parents_first.simps [simp del]

text \<open>The loops \<open>for qid in sorted(...): emit_parents_first(qid)\<close>.\<close>

fun emit_each :: "wikidata \<Rightarrow> config \<Rightarrow> nat \<Rightarrow> string list \<Rightarrow> state \<Rightarrow> error + state" where
  "emit_each wd cfg frames [] st = Inr st"
| "emit_each wd cfg frames (q # qs) st =
     (case emit_parents_first wd cfg frames q st of
        Inl e \<Rightarrow> Inl e
      | Inr st' \<Rightarrow> emit_each wd cfg frames qs st')"

section \<open>The whole run\<close>

text \<open>
  \<open>emit_person_with_ancestors_and_descendants\<close> in two parts. \<open>collect\<close> is the function
  up to the end of the Lineage Completer: it returns \<open>include_root_entry\<close>, the identifier
  of the root and the state with the final \<open>all_qids\<close>. \<open>emit_all\<close> is the emission that
  follows. \<open>frames\<close> is the number of nested calls of \<open>emit_parents_first\<close> the interpreter
  allows when the emission starts.
\<close>

definition collect :: "wikidata \<Rightarrow> config \<Rightarrow> string \<Rightarrow> error + (bool \<times> string \<times> state)" where
  "collect wd cfg root =
     (case normalize_qid root of
        Inl e \<Rightarrow> Inl e
      | Inr root_qid \<Rightarrow>
          (case get_person wd root_qid of
             Inl e \<Rightarrow> Inl e
           | Inr root_person \<Rightarrow>
               (let root_alive_on_cutoff = is_alive_on root_person CUTOFF_DATE False;
                    include_root_entry = (include_root_if_not_alive cfg \<or> root_alive_on_cutoff)
                in case gather_ancestors wd cfg include_root_entry root_qid 0 init_state of
                     Inl e \<Rightarrow> Inl e
                   | Inr st1 \<Rightarrow>
                       (case (if include_root_entry
                              then gather_descendants_alive wd cfg root_qid (max_descendant_depth cfg) st1
                              else Inr st1) of
                          Inl e \<Rightarrow> Inl e
                        | Inr st2 \<Rightarrow>
                            (let st3 = st2\<lparr>all_qids := ancestor_qids st2 \<union> descendant_qids st2\<rparr>
                             in case (if ensure_fathers_depth cfg > 0
                                      then ensure_fathers wd (nat (ensure_fathers_depth cfg)) (all_qids st3) st3
                                      else Inr st3) of
                                  Inl e \<Rightarrow> Inl e
                                | Inr st4 \<Rightarrow> Inr (include_root_entry, root_qid, st4))))))"

definition emit_all :: "wikidata \<Rightarrow> config \<Rightarrow> nat \<Rightarrow> bool \<Rightarrow> string \<Rightarrow> state \<Rightarrow> error + state" where
  "emit_all wd cfg frames include_root_entry root_qid st =
     (if include_root_entry
      then (case emit_parents_first wd cfg frames root_qid st of
              Inl e \<Rightarrow> Inl e
            | Inr st' \<Rightarrow> emit_each wd cfg frames (sorted_list_of_set (descendant_qids st')) st')
      else emit_each wd cfg frames (sorted_list_of_set (ancestor_qids st)) st)"

definition emit_person_with_ancestors_and_descendants ::
  "wikidata \<Rightarrow> config \<Rightarrow> nat \<Rightarrow> string \<Rightarrow> error + state" where
  "emit_person_with_ancestors_and_descendants wd cfg frames root =
     (case collect wd cfg root of
        Inl e \<Rightarrow> Inl e
      | Inr (include_root_entry, root_qid, st) \<Rightarrow> emit_all wd cfg frames include_root_entry root_qid st)"

section \<open>Example data\<close>

text \<open>Persons used to instantiate the theorems below.\<close>

definition p_1400_1450 :: person where
  "p_1400_1450 = \<lparr>qid = ''Q1'', label_en = None, label_ja = None, birth = Some ''1400-01-01'',
     death = Some ''1450-01-01'', father_qid = None, mother_qid = None, birth_place_en = None\<rparr>"

definition p_bc :: person where
  "p_bc = \<lparr>qid = ''Q1048'', label_en = Some ''Julius Caesar'', label_ja = None,
     birth = Some ''-0100-07-1'', death = Some ''-0044-03-1'', father_qid = None,
     mother_qid = None, birth_place_en = None\<rparr>"

text \<open>The value a well-formed row gives for a variable: the string, \<open>None\<close> when unbound.\<close>

definition json_of :: "string option \<Rightarrow> json" where
  "json_of x = (case x of None \<Rightarrow> JNull | Some s \<Rightarrow> JStr s)"



definition wd_down :: wikidata where
  "wd_down = \<lparr>person_query = (\<lambda>q. QueryFailed), children_query = (\<lambda>q. QueryFailed)\<rparr>"

definition child_row :: "string \<Rightarrow> binding" where
  "child_row uri = (\<lambda>v. if v = ''child'' then Some uri else None)"


definition label_row :: "string \<Rightarrow> binding" where
  "label_row l = (\<lambda>v. if v = ''labelEn'' then Some l else None)"

definition wd_clash :: wikidata where
  "wd_clash = \<lparr>person_query = (\<lambda>q. if q = ''Q3'' then Bindings [label_row ''A Q2'']
                                   else if q = ''Q1'' \<or> q = ''Q2'' then Bindings [label_row ''A'']
                                   else Bindings []),
     children_query = (\<lambda>q. Bindings [])\<rparr>"

definition cfg_default :: config where
  "cfg_default = \<lparr>id_prefix = ''wd_'', name_prefix = ''name_'', name_fallback_prefix = ''name_q'',
     culture = ''saigoku_culture'', religion = ''shinto'', dynasty = None, tag = None,
     birth_location = None, max_ancestor_depth = 6, max_descendant_depth = 6,
     ensure_fathers_depth = 1, include_root_if_not_alive = False, descendants_require_birth = True\<rparr>"

definition three_ids :: "wikidata \<Rightarrow> config \<Rightarrow> string \<Rightarrow> string \<Rightarrow> string \<Rightarrow> (string \<times> string \<times> string \<times> string option \<times> string option \<times> string option) option" where
  "three_ids wd cfg a b c =
     (case id_for_qid wd cfg a init_state of Inl e \<Rightarrow> None | Inr (ia, st1) \<Rightarrow>
      case id_for_qid wd cfg b st1 of Inl e \<Rightarrow> None | Inr (ib, st2) \<Rightarrow>
      case id_for_qid wd cfg c st2 of Inl e \<Rightarrow> None | Inr (ic, st3) \<Rightarrow>
        Some (ia, ib, ic, qid_to_char_id st3 a, qid_to_char_id st3 b, qid_to_char_id st3 c))"

definition parents_visited :: "wikidata \<Rightarrow> string \<Rightarrow> string set \<Rightarrow> bool" where
  "parents_visited wd q V =
     (case get_person wd q of
        Inl e \<Rightarrow> False
      | Inr p \<Rightarrow>
          (truthy (father_qid p) \<longrightarrow>
             (case normalize_qid (the (father_qid p)) of Inl e \<Rightarrow> False | Inr f \<Rightarrow> f \<in> V))
          \<and> (truthy (mother_qid p) \<longrightarrow>
             (case normalize_qid (the (mother_qid p)) of Inl e \<Rightarrow> False | Inr m \<Rightarrow> m \<in> V)))"

definition anc_step :: "wikidata \<Rightarrow> config \<Rightarrow> bool \<Rightarrow> int \<Rightarrow> state \<Rightarrow> state \<Rightarrow> (string \<times> int) list \<Rightarrow> bool" where
  "anc_step wd cfg inc depth st st' new =
     (ancestor_calls st' = ancestor_calls st @ new
      \<and> visited_ancestors st' = visited_ancestors st \<union> fst ` set new
      \<and> distinct (map fst new)
      \<and> fst ` set new \<inter> visited_ancestors st = {}
      \<and> (\<forall>(q, d) \<in> set new. depth \<le> d \<and> d \<le> max depth (max_ancestor_depth cfg))
      \<and> (\<forall>(q, d) \<in> set new. d < max_ancestor_depth cfg \<longrightarrow> parents_visited wd q (visited_ancestors st'))
      \<and> ancestor_qids st' = ancestor_qids st \<union>
            {q. \<exists>d p. (q, d) \<in> set new \<and> get_person wd q = Inr p \<and>
                 (if d = 0 then inc else is_alive_on p CUTOFF_DATE True)})"

definition visit_node :: "bool \<Rightarrow> person \<Rightarrow> string \<Rightarrow> int \<Rightarrow> state \<Rightarrow> state" where
  "visit_node inc p q depth st =
     (let st1 = st\<lparr>visited_ancestors := insert q (visited_ancestors st),
                    ancestor_calls := ancestor_calls st @ [(q, depth)]\<rparr>
      in if depth = 0
         then (if inc then st1\<lparr>ancestor_qids := insert q (ancestor_qids st1)\<rparr> else st1)
         else (if is_alive_on p CUTOFF_DATE True
               then st1\<lparr>ancestor_qids := insert q (ancestor_qids st1)\<rparr> else st1))"

definition parents_row :: "string \<Rightarrow> string \<Rightarrow> string \<Rightarrow> string \<Rightarrow> binding" where
  "parents_row b d f m =
     (\<lambda>v. if v = ''birth'' \<and> b \<noteq> [] then Some b
          else if v = ''death'' \<and> d \<noteq> [] then Some d
          else if v = ''father'' \<and> f \<noteq> [] then Some (''http://www.wikidata.org/entity/'' @ f)
          else if v = ''mother'' \<and> m \<noteq> [] then Some (''http://www.wikidata.org/entity/'' @ m)
          else None)"

definition wd_collapse :: wikidata where
  "wd_collapse = \<lparr>person_query =
       (\<lambda>q. if q = ''Q1'' then Bindings [parents_row ''1430-05-01T00:00:00Z'' [] ''Q2'' ''Q4'']
            else if q = ''Q2'' then Bindings [parents_row ''1400-01-01T00:00:00Z'' ''1440-01-01T00:00:00Z'' ''Q3'' []]
            else if q = ''Q4'' then Bindings [parents_row ''1405-01-01T00:00:00Z'' [] ''Q3'' []]
            else if q = ''Q3'' then Bindings [parents_row ''1370-01-01T00:00:00Z'' [] ''Q5'' []]
            else QueryFailed),
     children_query = (\<lambda>q. Bindings [])\<rparr>"

definition cfg_depth2 :: config where
  "cfg_depth2 = cfg_default\<lparr>max_ancestor_depth := 2\<rparr>"

definition collapse_final :: state where
  "collapse_final = init_state\<lparr>ancestor_qids := {''Q4'', ''Q3'', ''Q1''},
     visited_ancestors := {''Q4'', ''Q3'', ''Q2'', ''Q1''},
     ancestor_calls := [(''Q1'', 0), (''Q2'', 1), (''Q3'', 2), (''Q4'', 1)]\<rparr>"

definition is_child :: "wikidata \<Rightarrow> string \<Rightarrow> string \<Rightarrow> bool" where
  "is_child wd q c = (case fetch_children_qids wd q of Inl e \<Rightarrow> False | Inr cs \<Rightarrow> c \<in> set cs)"

definition passes_filter :: "wikidata \<Rightarrow> config \<Rightarrow> string \<Rightarrow> bool" where
  "passes_filter wd cfg c =
     (case get_person wd c of
        Inl e \<Rightarrow> False
      | Inr p \<Rightarrow> qid p = c \<and> is_alive_on p CUTOFF_DATE (descendants_require_birth cfg))"

definition desc_step ::
  "wikidata \<Rightarrow> config \<Rightarrow> int \<Rightarrow> string list \<Rightarrow> state \<Rightarrow> state \<Rightarrow> (string \<times> int) list \<Rightarrow> bool" where
  "desc_step wd cfg rem cs st st' new =
     (descendant_calls st' = descendant_calls st @ new
      \<and> descendant_qids st \<subseteq> descendant_qids st'
      \<and> ancestor_qids st' = ancestor_qids st
      \<and> (\<forall>c \<in> descendant_qids st' - descendant_qids st. passes_filter wd cfg c)
      \<and> (\<forall>(c, r) \<in> set new. 0 < r \<and> r < rem \<and> c \<in> descendant_qids st' \<and> c \<notin> descendant_qids st
            \<and> ((r = rem - 1 \<and> (\<exists>raw \<in> set cs. normalize_qid raw = Inr c))
                \<or> (\<exists>q. (q, r + 1) \<in> set new \<and> is_child wd q c))))"

definition gather_step :: "wikidata \<Rightarrow> config \<Rightarrow> string \<Rightarrow> int \<Rightarrow> state \<Rightarrow> state \<Rightarrow> bool" where
  "gather_step wd cfg q rem st st' =
     (if rem \<le> 0 then st' = st
      else \<exists>cs rest. fetch_children_qids wd q = Inr cs \<and>
             desc_step wd cfg rem cs (st\<lparr>descendant_calls := descendant_calls st @ [(q, rem)]\<rparr>) st' rest)"


definition wd_family :: wikidata where
  "wd_family = \<lparr>person_query =
       (\<lambda>q. if q = ''Q1'' then Bindings [parents_row ''1400-01-01T00:00:00Z'' [] [] []]
            else if q = ''Q2'' then Bindings [parents_row ''1420-01-01T00:00:00Z'' [] ''Q1'' []]
            else if q = ''Q3'' then Bindings [parents_row ''1421-01-01T00:00:00Z'' ''1430-01-01T00:00:00Z'' ''Q1'' []]
            else if q = ''Q4'' then Bindings [parents_row ''1440-01-01T00:00:00Z'' [] ''Q2'' []]
            else if q = ''Q5'' then Bindings [parents_row ''1441-01-01T00:00:00Z'' [] ''Q3'' []]
            else QueryFailed),
     children_query =
       (\<lambda>q. if q = ''Q1'' then Bindings [child_row ''http://www.wikidata.org/entity/Q2'',
                                          child_row ''http://www.wikidata.org/entity/Q3'']
            else if q = ''Q2'' then Bindings [child_row ''http://www.wikidata.org/entity/Q4'']
            else if q = ''Q3'' then Bindings [child_row ''http://www.wikidata.org/entity/Q5'']
            else Bindings [])\<rparr>"

definition cfg_two_down :: config where
  "cfg_two_down = cfg_default\<lparr>max_ancestor_depth := 0, max_descendant_depth := 2, ensure_fathers_depth := 0\<rparr>"

definition family_collected :: state where
  "family_collected = init_state\<lparr>ancestor_qids := {''Q1''}, descendant_qids := {''Q4'', ''Q2''},
     visited_ancestors := {''Q1''}, all_qids := {''Q1'', ''Q4'', ''Q2''},
     ancestor_calls := [(''Q1'', 0)], descendant_calls := [(''Q1'', 2), (''Q2'', 1)]\<rparr>"

definition dead_root_collected :: state where
  "dead_root_collected = init_state\<lparr>visited_ancestors := {''Q3''}, ancestor_calls := [(''Q3'', 0)]\<rparr>"


section \<open>The output of the emitter\<close>

text \<open>What the output shows: the local identifier and the external identifier in the header
  of an entry, and the local identifiers its \<open>father\<close> and \<open>mother\<close> lines refer to.\<close>

fun entry_header :: "printed \<Rightarrow> (string \<times> string) option" where
  "entry_header (Entry (Header c ja q # ls)) = Some (c, q)"
| "entry_header _ = None"

definition headers :: "printed list \<Rightarrow> (string \<times> string) list" where
  "headers out = List.map_filter entry_header out"

definition printed_qids :: "printed list \<Rightarrow> string list" where
  "printed_qids out = map snd (headers out)"

fun line_father :: "line \<Rightarrow> string option" where
  "line_father (Father f) = Some f"
| "line_father _ = None"

fun line_mother :: "line \<Rightarrow> string option" where
  "line_mother (Mother m) = Some m"
| "line_mother _ = None"

definition father_refs :: "line list \<Rightarrow> string list" where
  "father_refs ls = List.map_filter line_father ls"

definition mother_refs :: "line list \<Rightarrow> string list" where
  "mother_refs ls = List.map_filter line_mother ls"

text \<open>The parents of \<open>q\<close> that the emitter recurses on: those in the Inclusion Set \<open>A\<close>.\<close>

definition parent_in_set :: "string set \<Rightarrow> string option \<Rightarrow> string list" where
  "parent_in_set A raw =
     (if truthy raw \<and> the raw \<in> A
      then (case normalize_qid (the raw) of Inl e \<Rightarrow> [] | Inr x \<Rightarrow> [x])
      else [])"

definition in_set_parents :: "wikidata \<Rightarrow> string set \<Rightarrow> string \<Rightarrow> string list" where
  "in_set_parents wd A q =
     (case get_person wd q of
        Inl e \<Rightarrow> []
      | Inr p \<Rightarrow> parent_in_set A (father_qid p) @ parent_in_set A (mother_qid p))"

definition parent_rel :: "wikidata \<Rightarrow> string set \<Rightarrow> (string \<times> string) set" where
  "parent_rel wd A = {(x, q). x \<in> set (in_set_parents wd A q)}"

text \<open>\<open>st'\<close> differs from \<open>st\<close> in the two maps of the allocator only, and no identifier
  assigned in \<open>st\<close> has changed.\<close>

definition alloc_only :: "state \<Rightarrow> state \<Rightarrow> bool" where
  "alloc_only st st' =
     (st' = st\<lparr>qid_to_char_id := qid_to_char_id st', used_char_ids := used_char_ids st'\<rparr>
      \<and> (\<forall>x c. qid_to_char_id st x = Some c \<longrightarrow> qid_to_char_id st' x = Some c))"

text \<open>A property of every element of a list and the elements before it.\<close>

definition each_after :: "('a list \<Rightarrow> 'a \<Rightarrow> bool) \<Rightarrow> 'a list \<Rightarrow> bool" where
  "each_after Q xs = (\<forall>ys x zs. xs = ys @ x # zs \<longrightarrow> Q ys x)"

text \<open>What an entry must satisfy given the output \<open>before\<close> it: a \<open>father\<close> line exactly
  when the person has a father identifier, a \<open>mother\<close> line exactly when the mother identifier
  is in the Inclusion Set \<open>A\<close>; the \<open>mother\<close> line, and the \<open>father\<close> line when the father is in
  \<open>A\<close>, give the local identifier in the header of the parent's entry, printed before.\<close>

definition entry_ok :: "wikidata \<Rightarrow> string set \<Rightarrow> printed list \<Rightarrow> printed \<Rightarrow> bool" where
  "entry_ok wd A before e =
     (case e of
        Blank \<Rightarrow> True
      | Entry ls \<Rightarrow>
          (case entry_header e of
             None \<Rightarrow> False
           | Some (c, q) \<Rightarrow>
               (case get_person wd q of
                  Inl err \<Rightarrow> False
                | Inr p \<Rightarrow>
                    (if truthy (father_qid p) then length (father_refs ls) = 1 else father_refs ls = [])
                    \<and> (truthy (father_qid p) \<and> the (father_qid p) \<in> A \<longrightarrow>
                         (case normalize_qid (the (father_qid p)) of
                            Inl err \<Rightarrow> False
                          | Inr nf \<Rightarrow> (hd (father_refs ls), nf) \<in> set (headers before)))
                    \<and> (if truthy (mother_qid p) \<and> the (mother_qid p) \<in> A
                        then length (mother_refs ls) = 1 \<and>
                             (case normalize_qid (the (mother_qid p)) of
                                Inl err \<Rightarrow> False
                              | Inr nm \<Rightarrow> (hd (mother_refs ls), nm) \<in> set (headers before))
                        else mother_refs ls = []))))"

text \<open>The invariant of the emission: the entries printed are those of the identifiers in
  \<open>emitted\<close>, each under the local identifier the allocator holds for it, each after its
  parents in the Inclusion Set, and each entry is as \<open>entry_ok\<close> says.\<close>

definition emit_inv :: "wikidata \<Rightarrow> state \<Rightarrow> bool" where
  "emit_inv wd st =
     (set (printed_qids (stdout st)) = emitted st
      \<and> (\<forall>q \<in> emitted st. \<exists>c. qid_to_char_id st q = Some c \<and> (c, q) \<in> set (headers (stdout st)))
      \<and> each_after (\<lambda>ys q. set (in_set_parents wd (all_qids st) q) \<subseteq> set ys) (printed_qids (stdout st))
      \<and> each_after (entry_ok wd (all_qids st)) (stdout st))"

text \<open>What a call of \<open>emit_parents_first\<close> on \<open>q0\<close> that returns has done: \<open>q0\<close> is
  emitted, what is newly emitted is \<open>q0\<close> or an ancestor of it through parents in the set,
  and without a cycle among these parents nothing is printed twice.\<close>

definition emit_post :: "wikidata \<Rightarrow> string \<Rightarrow> state \<Rightarrow> state \<Rightarrow> bool" where
  "emit_post wd q0 st st' =
     (emit_inv wd st' \<and> all_qids st' = all_qids st \<and> ancestor_qids st' = ancestor_qids st
      \<and> descendant_qids st' = descendant_qids st \<and> emitted st \<subseteq> emitted st'
      \<and> (\<exists>q. normalize_qid q0 = Inr q \<and> q \<in> emitted st'
            \<and> (\<forall>x \<in> emitted st' - emitted st. (x, q) \<in> (parent_rel wd (all_qids st))\<^sup>*))
      \<and> (acyclic (parent_rel wd (all_qids st)) \<longrightarrow> distinct (printed_qids (stdout st)) \<longrightarrow>
            distinct (printed_qids (stdout st'))))"

text \<open>The same for the loops over a list of identifiers.\<close>

definition each_post :: "wikidata \<Rightarrow> string list \<Rightarrow> state \<Rightarrow> state \<Rightarrow> bool" where
  "each_post wd qs st st' =
     (emit_inv wd st' \<and> all_qids st' = all_qids st \<and> ancestor_qids st' = ancestor_qids st
      \<and> descendant_qids st' = descendant_qids st \<and> emitted st \<subseteq> emitted st'
      \<and> (\<forall>x \<in> set qs. \<exists>n. normalize_qid x = Inr n \<and> n \<in> emitted st')
      \<and> (acyclic (parent_rel wd (all_qids st)) \<longrightarrow> distinct (printed_qids (stdout st)) \<longrightarrow>
            distinct (printed_qids (stdout st'))))"

text \<open>The identifiers the emission is started on: the root and the descendants when the
  root is included, the ancestors otherwise.\<close>

definition requested :: "bool \<Rightarrow> string \<Rightarrow> state \<Rightarrow> string set" where
  "requested inc root st = (if inc then insert root (descendant_qids st) else ancestor_qids st)"

text \<open>What the Descendant Collector leaves alone, and that it adds finitely many identifiers.\<close>

definition desc_frame :: "state \<Rightarrow> state \<Rightarrow> bool" where
  "desc_frame st st' =
     (emitted st' = emitted st \<and> stdout st' = stdout st \<and> ancestor_qids st' = ancestor_qids st
      \<and> (finite (descendant_qids st) \<longrightarrow> finite (descendant_qids st')))"

text \<open>A chain of three generations, all alive on the cutoff date: \<open>Q3\<close> is the father of
  \<open>Q2\<close>, \<open>Q2\<close> the father of \<open>Q1\<close>. What the run on \<open>Q1\<close> collects and prints.\<close>

definition wd_chain :: wikidata where
  "wd_chain = \<lparr>person_query =
       (\<lambda>q. if q = ''Q1'' then Bindings [parents_row ''1430-05-01T00:00:00Z'' [] ''Q2'' []]
            else if q = ''Q2'' then Bindings [parents_row ''1405-01-01T00:00:00Z'' [] ''Q3'' []]
            else if q = ''Q3'' then Bindings [parents_row ''1370-01-01T00:00:00Z'' [] [] []]
            else QueryFailed),
     children_query = (\<lambda>q. Bindings [])\<rparr>"

definition chain_q3_lines :: "line list" where
  "chain_q3_lines = [Header ''wd_q3'' None ''Q3'', First_name ''name_qq3'',
     Culture ''saigoku_culture'', Religion ''shinto'', Birth_date ''1370.1.1'', Close]"

definition chain_q2_lines :: "line list" where
  "chain_q2_lines = [Header ''wd_q2'' None ''Q2'', First_name ''name_qq2'',
     Culture ''saigoku_culture'', Religion ''shinto'', Birth_date ''1405.1.1'',
     Father ''wd_q3'', Close]"

definition chain_q1_lines :: "line list" where
  "chain_q1_lines = [Header ''wd_q1'' None ''Q1'', First_name ''name_qq1'',
     Culture ''saigoku_culture'', Religion ''shinto'', Birth_date ''1430.5.1'',
     Father ''wd_q2'', Close]"

definition chain_collected :: state where
  "chain_collected = init_state\<lparr>ancestor_qids := {''Q3'', ''Q2'', ''Q1''},
     visited_ancestors := {''Q3'', ''Q2'', ''Q1''}, all_qids := {''Q1'', ''Q2'', ''Q3''},
     ancestor_calls := [(''Q1'', 0), (''Q2'', 1), (''Q3'', 2)], descendant_calls := [(''Q1'', 6)]\<rparr>"

definition chain_final :: state where
  "chain_final = chain_collected\<lparr>
     qid_to_char_id := [''Q3'' \<mapsto> ''wd_q3'', ''Q2'' \<mapsto> ''wd_q2'', ''Q1'' \<mapsto> ''wd_q1''],
     used_char_ids := [''wd_q3'' \<mapsto> ''Q3'', ''wd_q2'' \<mapsto> ''Q2'', ''wd_q1'' \<mapsto> ''Q1''],
     emitted := {''Q1'', ''Q2'', ''Q3''},
     stdout := [Entry chain_q3_lines, Blank, Entry chain_q2_lines, Blank, Entry chain_q1_lines]\<rparr>"

text \<open>Cyclic parent data: \<open>Q2\<close> is the father of \<open>Q1\<close> and \<open>Q1\<close> the father of \<open>Q2\<close>, both
  alive on the cutoff date.\<close>

definition wd_cycle :: wikidata where
  "wd_cycle = \<lparr>person_query =
       (\<lambda>q. if q = ''Q1'' then Bindings [parents_row ''1430-05-01T00:00:00Z'' [] ''Q2'' []]
            else if q = ''Q2'' then Bindings [parents_row ''1405-01-01T00:00:00Z'' [] ''Q1'' []]
            else QueryFailed),
     children_query = (\<lambda>q. Bindings [])\<rparr>"

definition cycle_collected :: state where
  "cycle_collected = init_state\<lparr>ancestor_qids := {''Q2'', ''Q1''},
     visited_ancestors := {''Q2'', ''Q1''}, all_qids := {''Q1'', ''Q2''},
     ancestor_calls := [(''Q1'', 0), (''Q2'', 1)], descendant_calls := [(''Q1'', 6)]\<rparr>"

text \<open>A living ancestor beyond an excluded mother: \<open>Q4\<close>, the mother of \<open>Q1\<close>, died in 1440;
  her father \<open>Q3\<close> is alive on the cutoff date.\<close>

definition wd_gap :: wikidata where
  "wd_gap = \<lparr>person_query =
       (\<lambda>q. if q = ''Q1'' then Bindings [parents_row ''1430-05-01T00:00:00Z'' [] [] ''Q4'']
            else if q = ''Q4'' then Bindings [parents_row ''1405-01-01T00:00:00Z'' ''1440-01-01T00:00:00Z'' ''Q3'' []]
            else if q = ''Q3'' then Bindings [parents_row ''1370-01-01T00:00:00Z'' [] [] []]
            else QueryFailed),
     children_query = (\<lambda>q. Bindings [])\<rparr>"

definition gap_q1_lines :: "line list" where
  "gap_q1_lines = [Header ''wd_q1'' None ''Q1'', First_name ''name_qq1'',
     Culture ''saigoku_culture'', Religion ''shinto'', Birth_date ''1430.5.1'', Close]"

definition gap_collected :: state where
  "gap_collected = init_state\<lparr>ancestor_qids := {''Q3'', ''Q1''},
     visited_ancestors := {''Q3'', ''Q4'', ''Q1''}, all_qids := {''Q1'', ''Q3''},
     ancestor_calls := [(''Q1'', 0), (''Q4'', 1), (''Q3'', 2)], descendant_calls := [(''Q1'', 6)]\<rparr>"

definition gap_final :: state where
  "gap_final = gap_collected\<lparr>
     qid_to_char_id := [''Q1'' \<mapsto> ''wd_q1''],
     used_char_ids := [''wd_q1'' \<mapsto> ''Q1''],
     emitted := {''Q1''},
     stdout := [Entry gap_q1_lines]\<rparr>"

text \<open>A father outside the Inclusion Set: \<open>Q2\<close>, the father of \<open>Q1\<close>, died in 1440 and is
  added by the Lineage Completer; the query for his father \<open>Q5\<close> fails.\<close>

definition wd_dangling :: wikidata where
  "wd_dangling = \<lparr>person_query =
       (\<lambda>q. if q = ''Q1'' then Bindings [parents_row ''1430-05-01T00:00:00Z'' [] ''Q2'' []]
            else if q = ''Q2'' then Bindings [parents_row ''1400-01-01T00:00:00Z'' ''1440-01-01T00:00:00Z'' ''Q5'' []]
            else QueryFailed),
     children_query = (\<lambda>q. Bindings [])\<rparr>"

definition dangling_q2_lines :: "line list" where
  "dangling_q2_lines = [Header ''wd_q2'' None ''Q2'', First_name ''name_qq2'',
     Culture ''saigoku_culture'', Religion ''shinto'', Birth_date ''1400.1.1'',
     Death_date ''1440.1.1'', Father ''wd_q5'', Close]"

definition dangling_q1_lines :: "line list" where
  "dangling_q1_lines = [Header ''wd_q1'' None ''Q1'', First_name ''name_qq1'',
     Culture ''saigoku_culture'', Religion ''shinto'', Birth_date ''1430.5.1'',
     Father ''wd_q2'', Close]"

definition dangling_collected :: state where
  "dangling_collected = init_state\<lparr>ancestor_qids := {''Q1''},
     visited_ancestors := {''Q5'', ''Q2'', ''Q1''}, all_qids := {''Q2'', ''Q1''},
     ancestor_calls := [(''Q1'', 0), (''Q2'', 1), (''Q5'', 2)], descendant_calls := [(''Q1'', 6)]\<rparr>"

definition dangling_final :: state where
  "dangling_final = dangling_collected\<lparr>
     qid_to_char_id := [''Q2'' \<mapsto> ''wd_q2'', ''Q5'' \<mapsto> ''wd_q5'', ''Q1'' \<mapsto> ''wd_q1''],
     used_char_ids := [''wd_q2'' \<mapsto> ''Q2'', ''wd_q5'' \<mapsto> ''Q5'', ''wd_q1'' \<mapsto> ''Q1''],
     emitted := {''Q1'', ''Q2''},
     stdout := [Entry dangling_q2_lines, Blank, Entry dangling_q1_lines]\<rparr>"

text \<open>A father that is not an entity: the row of \<open>Q1\<close> gives as father a value whose last path
  segment is not of the form \<open>Q\<close> and digits.\<close>

definition wd_genid :: wikidata where
  "wd_genid = \<lparr>person_query =
       (\<lambda>q. if q = ''Q1''
            then Bindings [(parents_row ''1430-05-01T00:00:00Z'' [] [] [])
                             (''father'' \<mapsto> ''http://www.wikidata.org/.well-known/genid/0a1b2c'')]
            else QueryFailed),
     children_query = (\<lambda>q. Bindings [])\<rparr>"

text \<open>Responses of another shape than the service promises: \<open>"bindings"\<close> is \<open>null\<close>; the only
  row is \<open>null\<close>; the father value of the row is a number.\<close>

definition null_bindings :: response where
  "null_bindings = Converted (JObj [(''results'', JObj [(''bindings'', JNull)])])"

definition wd_null_bindings :: wikidata where
  "wd_null_bindings = \<lparr>person_query = (\<lambda>q. null_bindings), children_query = (\<lambda>q. null_bindings)\<rparr>"

definition wd_null_row :: wikidata where
  "wd_null_row =
     \<lparr>person_query = (\<lambda>q. Converted (JObj [(''results'', JObj [(''bindings'', JArr [JNull])])])),
      children_query = (\<lambda>q. Converted (JObj [(''results'', JObj [(''bindings'', JArr [JNull])])]))\<rparr>"

definition wd_number_father :: wikidata where
  "wd_number_father =
     \<lparr>person_query = (\<lambda>q. Converted (JObj [(''results'', JObj [(''bindings'',
          JArr [JObj [(''father'', JObj [(''type'', JStr ''literal''), (''value'', JNum 5)])]])])])),
      children_query = (\<lambda>q. Bindings [])\<rparr>"

definition wd_null_children :: wikidata where
  "wd_null_children =
     \<lparr>person_query = (\<lambda>q. if q = ''Q1'' then Bindings [parents_row ''1430-05-01T00:00:00Z'' [] [] []]
                           else QueryFailed),
      children_query = (\<lambda>q. null_bindings)\<rparr>"
section \<open>The liveness predicate: properties\<close>

lemma date_not_less: "(\<not> date_less a b) = date_le b a"
  by (cases a; cases b) (auto simp: date_less_def date_le_def)

lemma date_not_le: "(\<not> date_le a b) = date_less b a"
  by (cases a; cases b) (auto simp: date_less_def date_le_def)

lemma date_less_irrefl: "\<not> date_less a a"
  by (simp add: date_less_def)

lemma is_alive_on_both:
  "parse_iso_date (birth p) = Some B \<Longrightarrow> parse_iso_date (death p) = Some D \<Longrightarrow>
   is_alive_on p ref rb = (date_le B ref \<and> date_less ref D)"
proof -
  assume "parse_iso_date (birth p) = Some B" "parse_iso_date (death p) = Some D"
  then have "is_alive_on p ref rb = (\<not> date_less ref B \<and> \<not> date_le D ref)"
    by (simp add: is_alive_on_def)
  then show ?thesis by (simp only: date_not_less date_not_le)
qed

text \<open>
  Claim C2. \<open>is_alive_on\<close> with \<open>require_birth\<close> set is false when the birth date is absent;
  with birth \<open>B\<close> and death \<open>D\<close> known it holds exactly when \<open>B \<le> ref < D\<close>, so it fails on
  \<open>B\<close> when \<open>D = B\<close>, for a birth after \<open>ref\<close> and for a death on or before \<open>ref\<close>; with
  no date known and \<open>require_birth\<close> unset it holds.
\<close>

theorem is_alive_on_half_open:
  "(parse_iso_date (birth p) = None \<longrightarrow> \<not> is_alive_on p ref True)
   \<and> (parse_iso_date (birth p) = Some B \<and> parse_iso_date (death p) = Some D \<longrightarrow>
        is_alive_on p ref rb = (date_le B ref \<and> date_less ref D))
   \<and> (parse_iso_date (birth p) = Some B \<and> parse_iso_date (death p) = Some B \<longrightarrow>
        \<not> is_alive_on p B rb)
   \<and> (parse_iso_date (birth p) = Some B \<and> date_less ref B \<longrightarrow> \<not> is_alive_on p ref rb)
   \<and> (parse_iso_date (death p) = Some D \<and> date_le D ref \<longrightarrow> \<not> is_alive_on p ref rb)
   \<and> (parse_iso_date (birth p) = None \<and> parse_iso_date (death p) = None \<longrightarrow>
        is_alive_on p ref False)"
proof -
  have 1: "parse_iso_date (birth p) = None \<Longrightarrow> \<not> is_alive_on p ref True"
    by (simp add: is_alive_on_def)
  have 2: "parse_iso_date (birth p) = Some B \<Longrightarrow> parse_iso_date (death p) = Some B \<Longrightarrow>
      \<not> is_alive_on p B rb"
    by (simp add: is_alive_on_both date_less_irrefl)
  have 3: "parse_iso_date (birth p) = Some B \<Longrightarrow> date_less ref B \<Longrightarrow> \<not> is_alive_on p ref rb"
    by (simp add: is_alive_on_def)
  have 4: "parse_iso_date (death p) = Some D \<Longrightarrow> date_le D ref \<Longrightarrow> \<not> is_alive_on p ref rb"
    by (simp add: is_alive_on_def Let_def)
  have 5: "parse_iso_date (birth p) = None \<Longrightarrow> parse_iso_date (death p) = None \<Longrightarrow>
      is_alive_on p ref False"
    by (simp add: is_alive_on_def)
  from 1 2 3 4 5 is_alive_on_both [of p B D ref rb] show ?thesis by blast
qed


lemma parse_1400: "parse_iso_date (Some ''1400-01-01'') = Some (Date 1400 1 1)"
  by (simp add: parse_iso_date_def strptime_def match_ymd_def match_month_def match_day_def
      is_digit_def digit_of_def in_range_def make_date_def days_in_month_def)

lemma parse_1450: "parse_iso_date (Some ''1450-01-01'') = Some (Date 1450 1 1)"
  by (simp add: parse_iso_date_def strptime_def match_ymd_def match_month_def match_day_def
      is_digit_def digit_of_def in_range_def make_date_def days_in_month_def)

theorem is_alive_on_half_open_witness:
  "parse_iso_date (birth p_1400_1450) = Some (Date 1400 1 1)
   \<and> parse_iso_date (death p_1400_1450) = Some (Date 1450 1 1)
   \<and> is_alive_on p_1400_1450 CUTOFF_DATE True
   \<and> \<not> is_alive_on p_1400_1450 (Date 1450 1 1) False
   \<and> \<not> is_alive_on p_1400_1450 (Date 1399 12 31) False
   \<and> parse_iso_date (birth (p_1400_1450\<lparr>birth := None\<rparr>)) = None
   \<and> \<not> is_alive_on (p_1400_1450\<lparr>birth := None\<rparr>) CUTOFF_DATE True
   \<and> is_alive_on (p_1400_1450\<lparr>birth := None, death := None\<rparr>) CUTOFF_DATE False"
proof -
  have b: "parse_iso_date (birth p_1400_1450) = Some (Date 1400 1 1)"
    and d: "parse_iso_date (death p_1400_1450) = Some (Date 1450 1 1)"
    by (simp_all add: p_1400_1450_def parse_1400 parse_1450)
  have n: "parse_iso_date (birth (p_1400_1450\<lparr>birth := None\<rparr>)) = None"
    "parse_iso_date (death (p_1400_1450\<lparr>birth := None, death := None\<rparr>)) = None"
    "parse_iso_date (birth (p_1400_1450\<lparr>birth := None, death := None\<rparr>)) = None"
    by (simp_all add: parse_iso_date_def)
  note t = is_alive_on_half_open [of p_1400_1450 _ "Date 1400 1 1" "Date 1450 1 1"]
  from t [of CUTOFF_DATE True] b d have 1: "is_alive_on p_1400_1450 CUTOFF_DATE True"
    by (simp add: CUTOFF_DATE_def date_le_def date_less_def)
  from t [of "Date 1450 1 1" False] b d have 2: "\<not> is_alive_on p_1400_1450 (Date 1450 1 1) False"
    by (simp add: date_le_def date_less_def)
  from t [of "Date 1399 12 31" False] b d have 3: "\<not> is_alive_on p_1400_1450 (Date 1399 12 31) False"
    by (simp add: date_le_def date_less_def)
  from is_alive_on_half_open [of "p_1400_1450\<lparr>birth := None\<rparr>" CUTOFF_DATE] n
  have 4: "\<not> is_alive_on (p_1400_1450\<lparr>birth := None\<rparr>) CUTOFF_DATE True" by blast
  from is_alive_on_half_open [of "p_1400_1450\<lparr>birth := None, death := None\<rparr>" CUTOFF_DATE] n
  have 5: "is_alive_on (p_1400_1450\<lparr>birth := None, death := None\<rparr>) CUTOFF_DATE False" by blast
  from b d 1 2 3 n(1) 4 5 show ?thesis by blast
qed

lemma strptime_nonpositive_year:
  "match_ymd s = ((y, m, d), r) # ms \<Longrightarrow> y \<le> 0 \<Longrightarrow> \<exists>e. strptime s = Inl e"
  by (simp add: strptime_def make_date_def)

text \<open>
  Claim C10. The date parsers return \<open>None\<close> instead of raising: for an absent or empty
  input, when \<open>strptime\<close> raises on the first ten characters, and when the year matched is
  zero or negative. A person whose recorded birth date is such a string has no birth date
  for \<open>is_alive_on\<close>, and is not alive when \<open>require_birth\<close> is set.
\<close>

theorem date_parsers_absent_not_raise:
  "(\<not> truthy s \<longrightarrow> parse_iso_date s = None \<and> iso_to_eu_date s = None)
   \<and> (strptime (take 10 x) = Inl e \<longrightarrow>
        parse_iso_date (Some x) = None \<and> iso_to_eu_date (Some x) = None)
   \<and> (match_ymd (take 10 x) = ((y, m, d), r) # ms \<and> y \<le> 0 \<longrightarrow>
        parse_iso_date (Some x) = None \<and> iso_to_eu_date (Some x) = None)
   \<and> (birth p = Some x \<and>
        (strptime (take 10 x) = Inl e \<or> (match_ymd (take 10 x) = ((y, m, d), r) # ms \<and> y \<le> 0)) \<longrightarrow>
        parse_iso_date (birth p) = None \<and> \<not> is_alive_on p ref True)"
proof -
  have a: "\<not> truthy s \<Longrightarrow> parse_iso_date s = None \<and> iso_to_eu_date s = None"
    by (simp add: parse_iso_date_def iso_to_eu_date_def)
  have b: "parse_iso_date (Some x) = None \<and> iso_to_eu_date (Some x) = None"
    if "strptime (take 10 x) = Inl e'" for e'
    using that by (simp add: parse_iso_date_def iso_to_eu_date_def)
  have c: "parse_iso_date (Some x) = None \<and> iso_to_eu_date (Some x) = None"
    if "match_ymd (take 10 x) = ((y, m, d), r) # ms" "y \<le> 0"
    using strptime_nonpositive_year [OF that] b by blast
  have d: "parse_iso_date (birth p) = None \<and> \<not> is_alive_on p ref True"
    if "birth p = Some x" "parse_iso_date (Some x) = None \<and> iso_to_eu_date (Some x) = None"
    using that by (simp add: is_alive_on_def)
  show ?thesis
  proof (intro conjI impI)
    assume "\<not> truthy s"
    then show "parse_iso_date s = None" "iso_to_eu_date s = None" using a by simp_all
  next
    assume "strptime (take 10 x) = Inl e"
    then show "parse_iso_date (Some x) = None" "iso_to_eu_date (Some x) = None" using b by simp_all
  next
    assume "match_ymd (take 10 x) = ((y, m, d), r) # ms \<and> y \<le> 0"
    then show "parse_iso_date (Some x) = None" "iso_to_eu_date (Some x) = None" using c by simp_all
  next
    assume h: "birth p = Some x \<and>
      (strptime (take 10 x) = Inl e \<or> match_ymd (take 10 x) = ((y, m, d), r) # ms \<and> y \<le> 0)"
    then have "parse_iso_date (Some x) = None \<and> iso_to_eu_date (Some x) = None"
      using b c by blast
    with h d show "parse_iso_date (birth p) = None" "\<not> is_alive_on p ref True" by simp_all
  qed
qed



theorem date_parsers_absent_not_raise_witness:
  "\<not> truthy (Some [])
   \<and> parse_iso_date (Some []) = None \<and> iso_to_eu_date None = None
   \<and> strptime (take 10 ''-0100-07-1'') = Inl (ValueError ''time data does not match format'')
   \<and> parse_iso_date (Some ''-0100-07-1'') = None \<and> iso_to_eu_date (Some ''-0100-07-1'') = None
   \<and> match_ymd (take 10 ''0000-01-01T00:00:00Z'') = [((0, 1, 1), [])]
   \<and> parse_iso_date (Some ''0000-01-01T00:00:00Z'') = None
   \<and> iso_to_eu_date (Some ''0000-01-01T00:00:00Z'') = None
   \<and> birth p_bc = Some ''-0100-07-1''
   \<and> \<not> is_alive_on p_bc CUTOFF_DATE True"
proof -
  have f: "strptime (take 10 ''-0100-07-1'') = Inl (ValueError ''time data does not match format'')"
    by (simp add: strptime_def match_ymd_def is_digit_def)
  have z: "match_ymd (take 10 ''0000-01-01T00:00:00Z'') = [((0, 1, 1), [])] \<and> (0::int) \<le> 0"
    by (simp add: match_ymd_def match_month_def match_day_def is_digit_def digit_of_def in_range_def)
  have p: "birth p_bc = Some ''-0100-07-1''"
    by (simp add: p_bc_def)
  note t1 = date_parsers_absent_not_raise [of "Some []" "''-0100-07-1''" _ 0 1 1 "[]" "[]" p_bc CUTOFF_DATE]
  note t2 = date_parsers_absent_not_raise [of None "''0000-01-01T00:00:00Z''" _ 0 1 1 "[]" "[]" p_bc CUTOFF_DATE]
  from t1 f p have a: "parse_iso_date (Some []) = None"
    "parse_iso_date (Some ''-0100-07-1'') = None \<and> iso_to_eu_date (Some ''-0100-07-1'') = None"
    "\<not> is_alive_on p_bc CUTOFF_DATE True"
    by simp_all
  from t2 z have b: "iso_to_eu_date None = None"
    "parse_iso_date (Some ''0000-01-01T00:00:00Z'') = None \<and> iso_to_eu_date (Some ''0000-01-01T00:00:00Z'') = None"
    by simp_all
  from a b f z p show ?thesis by simp
qed

section \<open>Identifiers: normalisation\<close>

lemma strip_fullmatch:
  assumes "fullmatch_qid q" shows "strip q = q"
proof -
  from assms obtain ds where q: "q = CHR ''Q'' # ds" "ds \<noteq> []" "list_all is_digit ds"
    by (cases q) auto
  have 1: "dropWhile is_space q = q" by (simp add: q is_space_def)
  from q have "is_digit (last ds)" by (simp add: list_all_iff)
  then have "\<not> is_space (last q)" using q by (auto simp: is_space_def is_digit_def Let_def)
  then have "\<not> is_space (hd (rev q))" using q by (simp add: hd_rev)
  moreover have "rev q \<noteq> []" using q by simp
  ultimately have 2: "dropWhile is_space (rev q) = rev q"
    by (cases "rev q") simp_all
  show ?thesis by (simp add: strip_def 1 2)
qed

lemma normalize_qid_valid: "fullmatch_qid q \<Longrightarrow> normalize_qid q = Inr q"
proof -
  assume v: "fullmatch_qid q"
  then have "\<not> startswith q ''http''" by (cases q) (auto simp: startswith_def)
  with v show ?thesis by (simp add: normalize_qid_def strip_fullmatch)
qed

lemma normalize_qid_Inr: "normalize_qid q0 = Inr q \<Longrightarrow> fullmatch_qid q"
  by (auto simp: normalize_qid_def Let_def split: if_splits)

lemma normalize_qid_idem: "normalize_qid q0 = Inr q \<Longrightarrow> normalize_qid q = Inr q"
  by (blast intro: normalize_qid_valid normalize_qid_Inr)

section \<open>The query oracle: properties\<close>

text \<open>How the two functions read a response of the shape the service gives.\<close>

lemma map_of_rev_distinct: "distinct (map fst kvs) \<Longrightarrow> map_of (rev kvs) = map_of kvs"
proof (induction kvs)
  case Nil
  then show ?case by simp
next
  case (Cons kv kvs)
  obtain k v where kv: "kv = (k, v)" by (cases kv)
  from Cons.prems kv have d: "distinct (map fst kvs)" and n: "k \<notin> fst ` set kvs" by auto
  from n have k: "map_of kvs k = None" by (simp add: map_of_eq_None_iff)
  show ?case
  proof
    fix x
    show "map_of (rev (kv # kvs)) x = map_of (kv # kvs) x"
      using k Cons.IH [OF d] by (simp add: kv map_of_append map_add_def split: option.splits)
  qed
qed

lemma map_of_row:
  "distinct ks \<Longrightarrow>
   map_of (List.map_filter (\<lambda>v. map_option (\<lambda>s. (v, f s)) (b v)) ks) k =
     (if k \<in> set ks then map_option f (b k) else None)"
proof (induction ks)
  case Nil
  then show ?case by (simp add: List.map_filter_simps)
next
  case (Cons a ks)
  then show ?case by (cases "b a") (auto simp: List.map_filter_simps)
qed

lemma fst_row:
  "map fst (List.map_filter (\<lambda>v. map_option (\<lambda>s. (v, f s)) (b v)) ks) = filter (\<lambda>v. b v \<noteq> None) ks"
proof (induction ks)
  case Nil
  then show ?case by (simp add: List.map_filter_simps)
next
  case (Cons a ks)
  then show ?case by (cases "b a") (auto simp: List.map_filter_simps)
qed

lemma distinct_variables: "distinct variables"
  by (simp add: variables_def)

lemma get_value_row_of:
  "v \<in> set variables \<Longrightarrow> get_value (row_of b) v = Inr (json_of (b v))"
proof -
  assume v: "v \<in> set variables"
  let ?kvs = "List.map_filter (\<lambda>v. map_option (\<lambda>s. (v, JObj [(''value'', JStr s)])) (b v)) variables"
  have "distinct (map fst ?kvs)" by (simp add: fst_row distinct_variables)
  then have "map_of (rev ?kvs) v = map_of ?kvs v" by (simp add: map_of_rev_distinct)
  also have "\<dots> = map_option (\<lambda>s. JObj [(''value'', JStr s)]) (b v)"
    using v by (simp add: map_of_row distinct_variables)
  finally show ?thesis
    by (cases "b v") (simp_all add: get_value_def row_of_def json_of_def)
qed

lemma json_of_simps:
  "rsplit_value (json_of x) = Inr (if truthy x then Some (rsplit_last (the x)) else None)"
  "first_ten (json_of x) = Inr (json_of (if truthy x then Some (take 10 (the x)) else None))"
  "as_field (json_of x) = Some x"
  "truthy_json (json_of x) = truthy x"
  by (cases x; simp add: json_of_def rsplit_value_def first_ten_def)+

lemma first_binding_simps:
  "first_binding QueryFailed = None"
  "first_binding MissingKey = None"
  "first_binding (Bindings []) = None"
  "first_binding (Bindings (b # bs)) = Some (row_of b)"
  by (simp_all add: first_binding_def MissingKey_def Bindings_def)

lemma read_person_simps:
  "read_person q QueryFailed = Inr (no_person q)"
  "read_person q MissingKey = Inr (no_person q)"
  "read_person q (Bindings []) = Inr (no_person q)"
  "read_person q (Bindings (b # bs)) =
     Inr \<lparr>qid = q,
          label_en = b ''labelEn'',
          label_ja = b ''labelJa'',
          birth = (if truthy (b ''birth'') then Some (take 10 (the (b ''birth''))) else None),
          death = (if truthy (b ''death'') then Some (take 10 (the (b ''death''))) else None),
          father_qid = (if truthy (b ''father'') then Some (rsplit_last (the (b ''father''))) else None),
          mother_qid = (if truthy (b ''mother'') then Some (rsplit_last (the (b ''mother''))) else None),
          birth_place_en = b ''birthPlaceLabelEn''\<rparr>"
  by (simp_all add: read_person_def first_binding_simps get_value_row_of variables_def
      json_of_simps typed_person_def)

lemma children_bindings_simps:
  "children_bindings QueryFailed = None"
  "children_bindings MissingKey = Some (JArr [])"
  "children_bindings (Bindings bs) = Some (JArr (map row_of bs))"
  by (simp_all add: children_bindings_def MissingKey_def Bindings_def)

lemma children_loop_rows:
  "children_loop (map row_of bs) acc =
     Inr (acc @ filter fullmatch_qid (map rsplit_last (filter (\<lambda>s. s \<noteq> [])
            (List.map_filter (\<lambda>b. b ''child'') bs))))"
proof (induction bs arbitrary: acc)
  case Nil
  then show ?case by (simp add: List.map_filter_simps)
next
  case (Cons b bs)
  have g: "get_value (row_of b) ''child'' = Inr (json_of (b ''child''))"
    by (simp add: get_value_row_of variables_def)
  show ?case
    by (cases "b ''child''") (simp_all add: g Cons.IH json_of_def List.map_filter_simps Let_def)
qed

lemma read_children_simps:
  "read_children QueryFailed = Inr []"
  "read_children MissingKey = Inr []"
  "read_children (Bindings bs) =
     Inr (filter fullmatch_qid (map rsplit_last (filter (\<lambda>s. s \<noteq> [])
            (List.map_filter (\<lambda>b. b ''child'') bs))))"
  by (simp_all add: read_children_def children_bindings_simps children_loop_rows)

text \<open>
  What is absorbed: when the attribute query fails, lacks a key or has no row,
  \<open>fetch_person\<close> (and \<open>get_person\<close>) returns the person of the identifier with every optional
  field absent; when the children query fails, lacks a key or has no row,
  \<open>fetch_children_qids\<close> returns the empty list.
\<close>

lemma query_failure_absorbed:
  "normalize_qid q0 = Inr q \<Longrightarrow>
   (person_query wd q = QueryFailed \<or> person_query wd q = MissingKey \<or> person_query wd q = Bindings []
      \<longrightarrow> fetch_person wd q0 = Inr \<lparr>qid = q, label_en = None, label_ja = None, birth = None,
             death = None, father_qid = None, mother_qid = None, birth_place_en = None\<rparr>
          \<and> get_person wd q0 = fetch_person wd q0)
   \<and> (children_query wd q = QueryFailed \<or> children_query wd q = MissingKey \<or> children_query wd q = Bindings []
      \<longrightarrow> fetch_children_qids wd q0 = Inr [])"
  by (auto simp: fetch_person_def get_person_def fetch_children_qids_def read_person_simps read_children_simps
      List.map_filter_simps no_person_def normalize_qid_idem)

lemma norm_Q1: "normalize_qid ''http://www.wikidata.org/entity/Q1'' = Inr ''Q1''"
  by (simp add: normalize_qid_def strip_def is_space_def startswith_def rsplit_last_def is_digit_def)







lemmas str_defs = normalize_qid_def strip_def is_space_def startswith_def rsplit_last_def is_digit_def
  lower_def lower_char_def capitals_def smalls_def in_range_def slugify_to_token_def nfkd_base_def
  decomposed_def strip_chars_def or_empty_def

lemma slug1: "slugify_to_token ''A Q2'' = ''a_q2''"
  by (simp add: str_defs)
lemma slug2: "slugify_to_token ''A'' = ''a''"
  by (simp add: str_defs)

section \<open>The Identifier Allocator: properties\<close>

text \<open>
  Claim C3 at a failing input. \<open>Q3\<close> has the label \<open>A Q2\<close>, \<open>Q1\<close> and \<open>Q2\<close> the label \<open>A\<close>.
  Asked for \<open>Q3\<close>, \<open>Q1\<close>, \<open>Q2\<close> in this order, the allocator gives \<open>Q3\<close> its natural token
  \<open>wd_a_q2\<close>, \<open>Q1\<close> the token \<open>wd_a\<close>, and \<open>Q2\<close>, whose token \<open>wd_a\<close> is taken, the suffixed token
  \<open>wd_a_q2\<close>: two external identifiers share a local identifier.
\<close>

theorem id_for_qid_shared_identifier:
  "three_ids wd_clash cfg_default ''Q3'' ''Q1'' ''Q2'' =
     Some (''wd_a_q2'', ''wd_a'', ''wd_a_q2'', Some ''wd_a_q2'', Some ''wd_a'', Some ''wd_a_q2'')"
  by (simp add: three_ids_def id_for_qid_def get_person_def fetch_person_def read_person_simps wd_clash_def cfg_default_def
      init_state_def label_row_def make_character_id_from_person_def slug1 slug2 str_defs Let_def)

section \<open>The Ancestor Collector: properties\<close>

lemma and_then_Inr: "(and_then m f = Inr y) = (\<exists>x. m = Inr x \<and> f x = Inr y)"
  by (cases m) simp_all

lemma typed_person_qid: "typed_person q en ja b d f m bp = Inr p \<Longrightarrow> qid p = q"
  by (auto simp: typed_person_def split: option.splits)

lemma read_person_qid: "read_person q r = Inr p \<Longrightarrow> qid p = q"
  by (auto simp: read_person_def no_person_def and_then_Inr split: option.splits dest: typed_person_qid)

lemma fetch_person_qid: "fetch_person wd q0 = Inr p \<Longrightarrow> normalize_qid q0 = Inr (qid p)"
  by (auto simp: fetch_person_def split: sum.splits dest: read_person_qid)

lemma get_person_norm: "normalize_qid q0 = Inr q \<Longrightarrow> get_person wd q0 = get_person wd q"
  by (simp add: get_person_def normalize_qid_idem)

lemma get_person_qid: "get_person wd q0 = Inr p \<Longrightarrow> normalize_qid q0 = Inr (qid p)"
  by (auto simp: get_person_def normalize_qid_idem dest!: fetch_person_qid split: sum.splits)

lemma parents_visited_mono: "parents_visited wd q V \<Longrightarrow> V \<subseteq> W \<Longrightarrow> parents_visited wd q W"
  by (auto simp: parents_visited_def split: sum.splits)

lemma anc_step_refl: "anc_step wd cfg inc depth st st []"
  by (simp add: anc_step_def)

lemma anc_step_trans:
  assumes 1: "anc_step wd cfg inc d st1 st2 new1" and 2: "anc_step wd cfg inc d st2 st3 new2"
  shows "anc_step wd cfg inc d st1 st3 (new1 @ new2)"
proof -
  have c: "ancestor_calls st3 = ancestor_calls st1 @ new1 @ new2"
    using 1 2 by (simp add: anc_step_def)
  have v2: "visited_ancestors st2 = visited_ancestors st1 \<union> fst ` set new1"
    using 1 unfolding anc_step_def by blast
  have v3: "visited_ancestors st3 = visited_ancestors st2 \<union> fst ` set new2"
    using 2 unfolding anc_step_def by blast
  have v: "visited_ancestors st3 = visited_ancestors st1 \<union> fst ` set (new1 @ new2)"
    using v2 v3 by auto
  have d1: "distinct (map fst new1)" "fst ` set new1 \<inter> visited_ancestors st1 = {}"
    using 1 unfolding anc_step_def by blast+
  have d2: "distinct (map fst new2)" "fst ` set new2 \<inter> visited_ancestors st2 = {}"
    using 2 unfolding anc_step_def by blast+
  have d: "distinct (map fst (new1 @ new2))" "fst ` set (new1 @ new2) \<inter> visited_ancestors st1 = {}"
    using d1 d2 v2 by auto
  have b: "\<forall>(q, k) \<in> set (new1 @ new2). d \<le> k \<and> k \<le> max d (max_ancestor_depth cfg)"
    using 1 2 by (auto simp: anc_step_def)
  have p1: "\<forall>(q, k) \<in> set new1. k < max_ancestor_depth cfg \<longrightarrow> parents_visited wd q (visited_ancestors st2)"
    using 1 unfolding anc_step_def by blast
  have p2: "\<forall>(q, k) \<in> set new2. k < max_ancestor_depth cfg \<longrightarrow> parents_visited wd q (visited_ancestors st3)"
    using 2 unfolding anc_step_def by blast
  have "visited_ancestors st2 \<subseteq> visited_ancestors st3" using v3 by auto
  with p1 have "\<forall>(q, k) \<in> set new1. k < max_ancestor_depth cfg \<longrightarrow> parents_visited wd q (visited_ancestors st3)"
    by (blast intro: parents_visited_mono)
  with p2 have p: "\<forall>(q, k) \<in> set (new1 @ new2). k < max_ancestor_depth cfg \<longrightarrow> parents_visited wd q (visited_ancestors st3)"
    by auto
  have a: "ancestor_qids st3 = ancestor_qids st1 \<union>
            {q. \<exists>d p. (q, d) \<in> set (new1 @ new2) \<and> get_person wd q = Inr p \<and>
                 (if d = 0 then inc else is_alive_on p CUTOFF_DATE True)}"
    using 1 2 unfolding anc_step_def by auto
  show ?thesis unfolding anc_step_def using c v d b p a by blast
qed

lemma anc_step_deeper:
  assumes "anc_step wd cfg inc (depth + 1) st st' new" "depth < max_ancestor_depth cfg"
  shows "anc_step wd cfg inc depth st st' new"
  using assms unfolding anc_step_def by (auto simp: max_def split: if_splits)

lemma anc_step_node:
  assumes nv: "q \<notin> visited_ancestors st"
    and c2: "ancestor_calls st2 = ancestor_calls st @ [(q, depth)]"
    and v2: "visited_ancestors st2 = insert q (visited_ancestors st)"
    and a2: "ancestor_qids st2 = ancestor_qids st \<union>
               (if (if depth = 0 then inc else is_alive_on p CUTOFF_DATE True) then {q} else {})"
    and p: "get_person wd q = Inr p"
    and rest: "anc_step wd cfg inc depth st2 st' rest"
    and pv: "depth < max_ancestor_depth cfg \<longrightarrow> parents_visited wd q (visited_ancestors st')"
  shows "anc_step wd cfg inc depth st st' ((q, depth) # rest)"
proof -
  have c: "ancestor_calls st' = ancestor_calls st @ (q, depth) # rest"
    using rest c2 unfolding anc_step_def by simp
  have v': "visited_ancestors st' = visited_ancestors st2 \<union> fst ` set rest"
    using rest unfolding anc_step_def by blast
  then have v: "visited_ancestors st' = visited_ancestors st \<union> fst ` set ((q, depth) # rest)"
    using v2 by auto
  have dr: "distinct (map fst rest)" "fst ` set rest \<inter> visited_ancestors st2 = {}"
    using rest unfolding anc_step_def by blast+
  then have d: "distinct (map fst ((q, depth) # rest))"
    "fst ` set ((q, depth) # rest) \<inter> visited_ancestors st = {}"
    using v2 nv by auto
  have "\<forall>(r, k) \<in> set rest. depth \<le> k \<and> k \<le> max depth (max_ancestor_depth cfg)"
    using rest unfolding anc_step_def by blast
  then have b: "\<forall>(r, k) \<in> set ((q, depth) # rest). depth \<le> k \<and> k \<le> max depth (max_ancestor_depth cfg)"
    by auto
  have "\<forall>(r, k) \<in> set rest. k < max_ancestor_depth cfg \<longrightarrow> parents_visited wd r (visited_ancestors st')"
    using rest unfolding anc_step_def by blast
  with pv have pp: "\<forall>(r, k) \<in> set ((q, depth) # rest). k < max_ancestor_depth cfg \<longrightarrow>
      parents_visited wd r (visited_ancestors st')"
    by auto
  have "ancestor_qids st' = ancestor_qids st2 \<union>
            {r. \<exists>d p. (r, d) \<in> set rest \<and> get_person wd r = Inr p \<and>
                 (if d = 0 then inc else is_alive_on p CUTOFF_DATE True)}"
    using rest unfolding anc_step_def by blast
  then have a: "ancestor_qids st' = ancestor_qids st \<union>
            {r. \<exists>d p. (r, d) \<in> set ((q, depth) # rest) \<and> get_person wd r = Inr p \<and>
                 (if d = 0 then inc else is_alive_on p CUTOFF_DATE True)}"
    using a2 p by (auto split: if_splits)
  show ?thesis unfolding anc_step_def using c v d b pp a by blast
qed

lemma gather_ancestors_unfold:
  "normalize_qid q0 = Inr q \<Longrightarrow> q \<notin> visited_ancestors st \<Longrightarrow> get_person wd q = Inr p \<Longrightarrow>
   gather_ancestors wd cfg inc q0 depth st =
     (if max_ancestor_depth cfg \<le> depth then Inr (visit_node inc p q depth st)
      else case (if truthy (father_qid p)
                 then gather_ancestors wd cfg inc (the (father_qid p)) (depth + 1) (visit_node inc p q depth st)
                 else Inr (visit_node inc p q depth st)) of
             Inl e \<Rightarrow> Inl e
           | Inr st3 \<Rightarrow>
               if truthy (mother_qid p)
               then gather_ancestors wd cfg inc (the (mother_qid p)) (depth + 1) st3
               else Inr st3)"
  by (subst gather_ancestors.simps) (simp add: visit_node_def Let_def)

lemma gather_ancestors_step:
  "gather_ancestors wd cfg inc q0 depth st = Inr st' \<Longrightarrow>
   \<exists>new r. anc_step wd cfg inc depth st st' new \<and> normalize_qid q0 = Inr r
      \<and> r \<in> visited_ancestors st'
      \<and> (r \<notin> visited_ancestors st \<longrightarrow> new \<noteq> [] \<and> hd new = (r, depth))
      \<and> (max_ancestor_depth cfg \<le> depth \<longrightarrow> length new \<le> 1)"
proof (induction wd cfg inc q0 depth st arbitrary: st' rule: gather_ancestors.induct)
  case (1 wd cfg inc q0 depth st)
  note res = "1.prems"
  show ?case
  proof (cases "normalize_qid q0")
    case (Inl e)
    with res show ?thesis by (subst (asm) gather_ancestors.simps) simp
  next
    case (Inr q)
    show ?thesis
    proof (cases "q \<in> visited_ancestors st")
      case True
      with res Inr have "st' = st" by (subst (asm) gather_ancestors.simps) simp
      with Inr True show ?thesis using anc_step_refl [of wd cfg inc depth st] by auto
    next
      case False
      from res Inr False obtain p where p: "get_person wd q = Inr p"
        by (subst (asm) gather_ancestors.simps) (cases "get_person wd q"; simp add: Let_def)
      define st1 where "st1 = st\<lparr>visited_ancestors := insert q (visited_ancestors st),
          ancestor_calls := ancestor_calls st @ [(q, depth)]\<rparr>"
      define st2 where "st2 = (if depth = 0
          then if inc then st1\<lparr>ancestor_qids := insert q (ancestor_qids st1)\<rparr> else st1
          else if is_alive_on p CUTOFF_DATE True
               then st1\<lparr>ancestor_qids := insert q (ancestor_qids st1)\<rparr> else st1)"
      have vn: "visit_node inc p q depth st = st2"
        by (simp add: visit_node_def st1_def st2_def Let_def)
      note unfold = gather_ancestors_unfold [OF Inr False p, of cfg inc depth, unfolded vn]
      have c2: "ancestor_calls st2 = ancestor_calls st @ [(q, depth)]"
        and v2: "visited_ancestors st2 = insert q (visited_ancestors st)"
        and a2: "ancestor_qids st2 = ancestor_qids st \<union>
               (if (if depth = 0 then inc else is_alive_on p CUTOFF_DATE True) then {q} else {})"
        by (simp_all add: st1_def st2_def)
      show ?thesis
      proof (cases "max_ancestor_depth cfg \<le> depth")
        case True
        with res have "st' = st2" by (simp add: unfold)
        moreover have "anc_step wd cfg inc depth st st2 [(q, depth)]"
          using anc_step_node [OF False c2 v2 a2 p anc_step_refl] True by simp
        ultimately show ?thesis using Inr v2 by auto
      next
        case deep: False
        define rf where "rf = (if truthy (father_qid p)
            then gather_ancestors wd cfg inc (the (father_qid p)) (depth + 1) st2 else Inr st2)"
        from res deep have unf:
          "(case rf of Inl e \<Rightarrow> Inl e
            | Inr st3 \<Rightarrow> if truthy (mother_qid p)
                then gather_ancestors wd cfg inc (the (mother_qid p)) (depth + 1) st3
                else Inr st3) = Inr st'"
          by (simp add: unfold rf_def)
        then obtain st3 where rf: "rf = Inr st3" by (cases rf) auto
        with unf have rm: "(if truthy (mother_qid p)
                then gather_ancestors wd cfg inc (the (mother_qid p)) (depth + 1) st3
                else Inr st3) = Inr st'" by simp
        have f: "\<exists>newf. anc_step wd cfg inc (depth + 1) st2 st3 newf \<and>
            (truthy (father_qid p) \<longrightarrow> (\<exists>r. normalize_qid (the (father_qid p)) = Inr r \<and> r \<in> visited_ancestors st3))"
        proof (cases "truthy (father_qid p)")
          case True
          with rf have "gather_ancestors wd cfg inc (the (father_qid p)) (depth + 1) st2 = Inr st3"
            by (simp add: rf_def)
          from "1.IH"(1) [OF Inr False st1_def p st2_def deep True this] True show ?thesis by blast
        next
          case False
          with rf have "st3 = st2" by (simp add: rf_def)
          with False show ?thesis using anc_step_refl by blast
        qed
        then obtain newf where newf: "anc_step wd cfg inc (depth + 1) st2 st3 newf"
          and fv: "truthy (father_qid p) \<longrightarrow> (\<exists>r. normalize_qid (the (father_qid p)) = Inr r \<and> r \<in> visited_ancestors st3)"
          by blast
        have m: "\<exists>newm. anc_step wd cfg inc (depth + 1) st3 st' newm \<and>
            (truthy (mother_qid p) \<longrightarrow> (\<exists>r. normalize_qid (the (mother_qid p)) = Inr r \<and> r \<in> visited_ancestors st'))"
        proof (cases "truthy (mother_qid p)")
          case True
          with rm have g: "gather_ancestors wd cfg inc (the (mother_qid p)) (depth + 1) st3 = Inr st'"
            by simp
          have rf': "(if truthy (father_qid p)
            then gather_ancestors wd cfg inc (the (father_qid p)) (depth + 1) st2 else Inr st2) = Inr st3"
            using rf by (simp add: rf_def)
          from "1.IH"(2) [OF Inr False st1_def p st2_def deep rf' True g] True show ?thesis by blast
        next
          case False
          with rm have "st' = st3" by simp
          with False show ?thesis using anc_step_refl by blast
        qed
        then obtain newm where newm: "anc_step wd cfg inc (depth + 1) st3 st' newm"
          and mv: "truthy (mother_qid p) \<longrightarrow> (\<exists>r. normalize_qid (the (mother_qid p)) = Inr r \<and> r \<in> visited_ancestors st')"
          by blast
        have dl: "depth < max_ancestor_depth cfg" using deep by simp
        have rest: "anc_step wd cfg inc depth st2 st' (newf @ newm)"
          using anc_step_trans [OF anc_step_deeper [OF newf dl] anc_step_deeper [OF newm dl]] .
        have "visited_ancestors st3 \<subseteq> visited_ancestors st'"
          using newm unfolding anc_step_def by blast
        with fv mv have "parents_visited wd q (visited_ancestors st')"
          using p by (auto simp: parents_visited_def)
        then have "anc_step wd cfg inc depth st st' ((q, depth) # newf @ newm)"
          using anc_step_node [OF False c2 v2 a2 p rest] by simp
        moreover have "q \<in> visited_ancestors st'"
          using rest v2 unfolding anc_step_def by blast
        ultimately show ?thesis using Inr deep by auto
      qed
    qed
  qed
qed

text \<open>
  Claim C4. In a traversal from the root that returns, no identifier is expanded twice
  (the calls that pass the visited guard have distinct identifiers, also under pedigree
  collapse); every such call has a depth between 0 and the maximum depth, the first is the
  root at depth 0 and with maximum depth 0 it is the only one; and for every call below
  the maximum depth, whether or not its person was included, the father and the mother
  of the person have been visited.
\<close>

theorem gather_ancestors_once_and_bounded:
  assumes "gather_ancestors wd cfg inc root 0 init_state = Inr st"
  shows "distinct (map fst (ancestor_calls st))
     \<and> visited_ancestors st = fst ` set (ancestor_calls st)
     \<and> (\<forall>(q, d) \<in> set (ancestor_calls st). 0 \<le> d \<and> d \<le> max 0 (max_ancestor_depth cfg))
     \<and> (\<exists>r. normalize_qid root = Inr r \<and> hd (ancestor_calls st) = (r, 0)
           \<and> (max_ancestor_depth cfg \<le> 0 \<longrightarrow> ancestor_calls st = [(r, 0)]))
     \<and> (\<forall>(q, d) \<in> set (ancestor_calls st).
           d < max_ancestor_depth cfg \<longrightarrow> parents_visited wd q (visited_ancestors st))
     \<and> ancestor_qids st =
           {q. \<exists>d p. (q, d) \<in> set (ancestor_calls st) \<and> get_person wd q = Inr p \<and>
                 (if d = 0 then inc else is_alive_on p CUTOFF_DATE True)}"
proof -
  from gather_ancestors_step [OF assms] obtain new r where
    s: "anc_step wd cfg inc 0 init_state st new" and r: "normalize_qid root = Inr r"
    and h: "r \<notin> visited_ancestors init_state \<longrightarrow> new \<noteq> [] \<and> hd new = (r, 0)"
    and l: "max_ancestor_depth cfg \<le> 0 \<longrightarrow> length new \<le> 1"
    by blast
  have c: "ancestor_calls st = new" using s unfolding anc_step_def by (simp add: init_state_def)
  have v: "visited_ancestors st = fst ` set new" using s unfolding anc_step_def by (simp add: init_state_def)
  have d: "distinct (map fst new)" using s unfolding anc_step_def by blast
  have b: "\<forall>(q, d) \<in> set new. 0 \<le> d \<and> d \<le> max 0 (max_ancestor_depth cfg)"
    using s unfolding anc_step_def by blast
  have p: "\<forall>(q, d) \<in> set new. d < max_ancestor_depth cfg \<longrightarrow> parents_visited wd q (visited_ancestors st)"
    using s unfolding anc_step_def by blast
  have a: "ancestor_qids st = {q. \<exists>d p. (q, d) \<in> set new \<and> get_person wd q = Inr p \<and>
                 (if d = 0 then inc else is_alive_on p CUTOFF_DATE True)}"
    using s unfolding anc_step_def by (simp add: init_state_def)
  from h have hn: "new \<noteq> []" "hd new = (r, 0)" by (simp_all add: init_state_def)
  have one: "max_ancestor_depth cfg \<le> 0 \<longrightarrow> new = [(r, 0)]"
  proof
    assume "max_ancestor_depth cfg \<le> 0"
    with l have "length new \<le> 1" by simp
    with hn show "new = [(r, 0)]" by (cases new) auto
  qed
  show ?thesis unfolding c using v [unfolded c [symmetric]] d b r hn one p a
    by (simp add: c) 
qed

lemmas date_defs = parse_iso_date_def iso_to_eu_date_def strptime_def match_ymd_def match_month_def
  match_day_def digit_of_def make_date_def days_in_month_def is_leap_def str_int_def
  is_alive_on_def CUTOFF_DATE_def date_less_def date_le_def

lemma norm_Qs:
  "normalize_qid ''Q1'' = Inr ''Q1''" "normalize_qid ''Q2'' = Inr ''Q2''"
  "normalize_qid ''Q3'' = Inr ''Q3''" "normalize_qid ''Q4'' = Inr ''Q4''"
  "normalize_qid ''Q5'' = Inr ''Q5''"
  by (simp_all add: normalize_qid_valid is_digit_def)

lemma collapse_persons:
  "get_person wd_collapse ''Q1'' = Inr \<lparr>qid = ''Q1'', label_en = None, label_ja = None,
     birth = Some ''1430-05-01'', death = None, father_qid = Some ''Q2'', mother_qid = Some ''Q4'',
     birth_place_en = None\<rparr>"
  "get_person wd_collapse ''Q2'' = Inr \<lparr>qid = ''Q2'', label_en = None, label_ja = None,
     birth = Some ''1400-01-01'', death = Some ''1440-01-01'', father_qid = Some ''Q3'', mother_qid = None,
     birth_place_en = None\<rparr>"
  "get_person wd_collapse ''Q3'' = Inr \<lparr>qid = ''Q3'', label_en = None, label_ja = None,
     birth = Some ''1370-01-01'', death = None, father_qid = Some ''Q5'', mother_qid = None,
     birth_place_en = None\<rparr>"
  "get_person wd_collapse ''Q4'' = Inr \<lparr>qid = ''Q4'', label_en = None, label_ja = None,
     birth = Some ''1405-01-01'', death = None, father_qid = Some ''Q3'', mother_qid = None,
     birth_place_en = None\<rparr>"
  by (simp_all add: get_person_def fetch_person_def read_person_simps norm_Qs wd_collapse_def parents_row_def rsplit_last_def)

lemma alive_examples:
  "is_alive_on \<lparr>qid = a, label_en = b, label_ja = c, birth = Some ''1400-01-01'',
      death = Some ''1440-01-01'', father_qid = f, mother_qid = g, birth_place_en = h\<rparr> CUTOFF_DATE rb = False"
  "is_alive_on \<lparr>qid = a, label_en = b, label_ja = c, birth = Some ''1370-01-01'',
      death = None, father_qid = f, mother_qid = g, birth_place_en = h\<rparr> CUTOFF_DATE rb = True"
  "is_alive_on \<lparr>qid = a, label_en = b, label_ja = c, birth = Some ''1405-01-01'',
      death = None, father_qid = f, mother_qid = g, birth_place_en = h\<rparr> CUTOFF_DATE rb = True"
  "is_alive_on \<lparr>qid = a, label_en = b, label_ja = c, birth = Some ''1430-05-01'',
      death = None, father_qid = f, mother_qid = g, birth_place_en = h\<rparr> CUTOFF_DATE rb = True"
  by (simp_all add: date_defs is_digit_def in_range_def)

lemma gather_collapse:
  "gather_ancestors wd_collapse cfg_depth2 True ''Q1'' 0 init_state = Inr collapse_final"
  by (simp add: gather_ancestors.simps norm_Qs collapse_persons alive_examples cfg_depth2_def
      cfg_default_def init_state_def collapse_final_def insert_commute)

theorem gather_ancestors_once_and_bounded_witness:
  "gather_ancestors wd_collapse cfg_depth2 True ''Q1'' 0 init_state = Inr collapse_final
   \<and> ancestor_calls collapse_final = [(''Q1'', 0), (''Q2'', 1), (''Q3'', 2), (''Q4'', 1)]
   \<and> distinct (map fst (ancestor_calls collapse_final))
   \<and> ''Q2'' \<notin> ancestor_qids collapse_final
   \<and> parents_visited wd_collapse ''Q2'' (visited_ancestors collapse_final)
   \<and> ''Q3'' \<in> ancestor_qids collapse_final"
proof -
  note t = gather_ancestors_once_and_bounded [OF gather_collapse]
  have c: "ancestor_calls collapse_final = [(''Q1'', 0), (''Q2'', 1), (''Q3'', 2), (''Q4'', 1)]"
    by (simp add: collapse_final_def)
  have q: "''Q2'' \<notin> ancestor_qids collapse_final" "''Q3'' \<in> ancestor_qids collapse_final"
    by (simp_all add: collapse_final_def init_state_def)
  from t have "\<forall>(q, d) \<in> set (ancestor_calls collapse_final).
      d < max_ancestor_depth cfg_depth2 \<longrightarrow> parents_visited wd_collapse q (visited_ancestors collapse_final)"
    by blast
  then have p: "parents_visited wd_collapse ''Q2'' (visited_ancestors collapse_final)"
    by (simp add: c cfg_depth2_def)
  from t have "distinct (map fst (ancestor_calls collapse_final))"
    by blast
  then show ?thesis using gather_collapse c q p by (simp add: cfg_depth2_def)
qed

section \<open>The Descendant Collector: properties\<close>

lemma desc_step_nil: "desc_step wd cfg rem cs st st []"
  by (simp add: desc_step_def)

lemma desc_step_more: "desc_step wd cfg rem cs st st' new \<Longrightarrow> desc_step wd cfg rem (c # cs) st st' new"
  unfolding desc_step_def by fastforce

lemma fetch_children_valid:
  "fetch_children_qids wd q = Inr cs \<Longrightarrow> c \<in> set cs \<Longrightarrow> fullmatch_qid c"
proof -
  have l: "children_loop items acc = Inr cs \<Longrightarrow> c \<in> set cs \<Longrightarrow> c \<in> set acc \<or> fullmatch_qid c"
    for items acc
  proof (induction items arbitrary: acc)
    case Nil
    then show ?case by simp
  next
    case (Cons b bs)
    from Cons.prems(1) obtain child where g: "get_value b ''child'' = Inr child"
      by (cases "get_value b ''child''") auto
    show ?case
    proof (cases "truthy_json child")
      case False
      with Cons.prems g have "children_loop bs acc = Inr cs" by simp
      from Cons.IH [OF this Cons.prems(2)] show ?thesis .
    next
      case True
      with Cons.prems(1) g obtain s where s: "child = JStr s" by (cases child) auto
      show ?thesis
      proof (cases "fullmatch_qid (rsplit_last s)")
        case False
        with Cons.prems(1) g True s have "children_loop bs acc = Inr cs" by (simp add: Let_def)
        from Cons.IH [OF this Cons.prems(2)] show ?thesis .
      next
        case fm: True
        with Cons.prems(1) g True s have "children_loop bs (acc @ [rsplit_last s]) = Inr cs"
          by (simp add: Let_def)
        from Cons.IH [OF this Cons.prems(2)] fm show ?thesis by auto
      qed
    qed
  qed
  assume "fetch_children_qids wd q = Inr cs" "c \<in> set cs"
  then show ?thesis
    by (auto simp: fetch_children_qids_def read_children_def split: sum.splits option.splits dest: l)
qed

text \<open>One child that passes the filter and is new: its own call and those below it, then the rest of the loop.\<close>

lemma desc_step_child:
  assumes raw: "normalize_qid raw = Inr c"
    and pf: "passes_filter wd cfg c"
    and new: "c \<notin> descendant_qids st"
    and sub: "(rem - 1 \<le> 0 \<and> st1 = st\<lparr>descendant_qids := insert c (descendant_qids st)\<rparr> \<and> new1 = [])
        \<or> (0 < rem - 1 \<and> (\<exists>cs' rest. fetch_children_qids wd c = Inr cs' \<and> new1 = (c, rem - 1) # rest \<and>
              desc_step wd cfg (rem - 1) cs'
                (st\<lparr>descendant_qids := insert c (descendant_qids st),
                     descendant_calls := descendant_calls st @ [(c, rem - 1)]\<rparr>) st1 rest))"
    and rest: "desc_step wd cfg rem cs st1 st' new2"
  shows "desc_step wd cfg rem (raw # cs) st st' (new1 @ new2)"
proof -
  have c1: "descendant_calls st1 = descendant_calls st @ new1"
    using sub unfolding desc_step_def by auto
  have q1: "insert c (descendant_qids st) \<subseteq> descendant_qids st1"
    using sub unfolding desc_step_def by auto
  have a1: "ancestor_qids st1 = ancestor_qids st"
    using sub unfolding desc_step_def by auto
  have f1: "\<forall>x \<in> descendant_qids st1 - descendant_qids st. passes_filter wd cfg x"
    using sub pf unfolding desc_step_def by auto
  have n1: "\<forall>(x, r) \<in> set new1. 0 < r \<and> r < rem \<and> x \<in> descendant_qids st1 \<and> x \<notin> descendant_qids st
            \<and> ((r = rem - 1 \<and> (\<exists>raw' \<in> set (raw # cs). normalize_qid raw' = Inr x))
                \<or> (\<exists>q. (q, r + 1) \<in> set new1 \<and> is_child wd q x))"
  proof (cases "rem - 1 \<le> 0")
    case True
    with sub show ?thesis by auto
  next
    case False
    with sub obtain cs' rest' where cs': "fetch_children_qids wd c = Inr cs'"
      and n: "new1 = (c, rem - 1) # rest'"
      and d: "desc_step wd cfg (rem - 1) cs'
                (st\<lparr>descendant_qids := insert c (descendant_qids st),
                     descendant_calls := descendant_calls st @ [(c, rem - 1)]\<rparr>) st1 rest'"
      by auto
    have r': "\<forall>(x, r) \<in> set rest'. 0 < r \<and> r < rem - 1 \<and> x \<in> descendant_qids st1
          \<and> x \<notin> insert c (descendant_qids st)
          \<and> ((r = rem - 1 - 1 \<and> (\<exists>raw' \<in> set cs'. normalize_qid raw' = Inr x))
              \<or> (\<exists>q. (q, r + 1) \<in> set rest' \<and> is_child wd q x))"
      using d unfolding desc_step_def by simp
    have "0 < rem - 1 \<and> rem - 1 < rem \<and> c \<in> descendant_qids st1 \<and> c \<notin> descendant_qids st
        \<and> (\<exists>raw' \<in> set (raw # cs). normalize_qid raw' = Inr c)"
      using False q1 new raw by auto
    moreover have "0 < r \<and> r < rem \<and> x \<in> descendant_qids st1 \<and> x \<notin> descendant_qids st
            \<and> (\<exists>q. (q, r + 1) \<in> set new1 \<and> is_child wd q x)"
      if xr: "(x, r) \<in> set rest'" for x r
    proof -
      from r' xr have b: "0 < r" "r < rem - 1" "x \<in> descendant_qids st1" "x \<notin> descendant_qids st"
        and alt: "(r = rem - 1 - 1 \<and> (\<exists>raw' \<in> set cs'. normalize_qid raw' = Inr x))
              \<or> (\<exists>q. (q, r + 1) \<in> set rest' \<and> is_child wd q x)"
        by auto
      from alt have "\<exists>q. (q, r + 1) \<in> set new1 \<and> is_child wd q x"
      proof
        assume h: "r = rem - 1 - 1 \<and> (\<exists>raw' \<in> set cs'. normalize_qid raw' = Inr x)"
        then obtain raw' where "raw' \<in> set cs'" "normalize_qid raw' = Inr x" by blast
        moreover from this cs' have "normalize_qid raw' = Inr raw'"
          by (blast intro: normalize_qid_valid fetch_children_valid)
        ultimately have "is_child wd c x" using cs' by (simp add: is_child_def)
        moreover have "(c, r + 1) \<in> set new1" using h n by simp
        ultimately show ?thesis by blast
      next
        assume "\<exists>q. (q, r + 1) \<in> set rest' \<and> is_child wd q x"
        then show ?thesis using n by auto
      qed
      with b show ?thesis by simp
    qed
    ultimately show ?thesis unfolding n by auto
  qed
  have c2: "descendant_calls st' = descendant_calls st1 @ new2"
    and q2: "descendant_qids st1 \<subseteq> descendant_qids st'"
    and a2: "ancestor_qids st' = ancestor_qids st1"
    and f2: "\<forall>x \<in> descendant_qids st' - descendant_qids st1. passes_filter wd cfg x"
    using rest unfolding desc_step_def by blast+
  have n2: "\<forall>(x, r) \<in> set new2. 0 < r \<and> r < rem \<and> x \<in> descendant_qids st' \<and> x \<notin> descendant_qids st1
            \<and> ((r = rem - 1 \<and> (\<exists>raw \<in> set cs. normalize_qid raw = Inr x))
                \<or> (\<exists>q. (q, r + 1) \<in> set new2 \<and> is_child wd q x))"
    using rest unfolding desc_step_def by simp
  have 1: "descendant_calls st' = descendant_calls st @ new1 @ new2" using c1 c2 by simp
  have 2: "descendant_qids st \<subseteq> descendant_qids st'" using q1 q2 by auto
  have 3: "ancestor_qids st' = ancestor_qids st" using a1 a2 by simp
  have 4: "\<forall>x \<in> descendant_qids st' - descendant_qids st. passes_filter wd cfg x"
    using f1 f2 by blast
  have 5: "\<forall>(x, r) \<in> set (new1 @ new2). 0 < r \<and> r < rem \<and> x \<in> descendant_qids st' \<and> x \<notin> descendant_qids st
            \<and> ((r = rem - 1 \<and> (\<exists>raw' \<in> set (raw # cs). normalize_qid raw' = Inr x))
                \<or> (\<exists>q. (q, r + 1) \<in> set (new1 @ new2) \<and> is_child wd q x))"
  proof -
    have "0 < r \<and> r < rem \<and> x \<in> descendant_qids st' \<and> x \<notin> descendant_qids st
            \<and> ((r = rem - 1 \<and> (\<exists>raw' \<in> set (raw # cs). normalize_qid raw' = Inr x))
                \<or> (\<exists>q. (q, r + 1) \<in> set (new1 @ new2) \<and> is_child wd q x))"
      if "(x, r) \<in> set (new1 @ new2)" for x r
    proof (cases "(x, r) \<in> set new1")
      case True
      with n1 q2 show ?thesis by fastforce
    next
      case False
      with that have "(x, r) \<in> set new2" by simp
      with n2 q1 show ?thesis by fastforce
    qed
    then show ?thesis by blast
  qed
  show ?thesis unfolding desc_step_def using 1 2 3 4 5 by blast
qed

lemma get_person_passes:
  assumes "get_person wd raw = Inr p" "is_alive_on p CUTOFF_DATE (descendants_require_birth cfg)"
  shows "normalize_qid raw = Inr (qid p)" "passes_filter wd cfg (qid p)"
proof -
  show n: "normalize_qid raw = Inr (qid p)" using assms(1) by (rule get_person_qid)
  from get_person_norm [OF n, of wd] assms(1) have "get_person wd (qid p) = Inr p" by simp
  with assms(2) show "passes_filter wd cfg (qid p)" by (simp add: passes_filter_def)
qed

lemma gather_descendants_step:
  "\<forall>st'. gather_descendants_alive wd cfg q rem st = Inr st' \<longrightarrow> gather_step wd cfg q rem st st'"
  "\<forall>st'. descendants_loop wd cfg cs rem st = Inr st' \<longrightarrow> (\<exists>new. desc_step wd cfg rem cs st st' new)"
proof (induction wd cfg q rem st and wd cfg cs rem st rule: gather_descendants_alive_descendants_loop.induct)
  case (1 wd cfg q rem st)
  show ?case
  proof (intro allI impI)
    fix st'
    assume g: "gather_descendants_alive wd cfg q rem st = Inr st'"
    show "gather_step wd cfg q rem st st'"
    proof (cases "rem \<le> 0")
      case True
      with g show ?thesis by (simp add: gather_descendants_alive.simps gather_step_def)
    next
      case False
      with g obtain cs where cs: "fetch_children_qids wd q = Inr cs"
        and l: "descendants_loop wd cfg cs rem (st\<lparr>descendant_calls := descendant_calls st @ [(q, rem)]\<rparr>) = Inr st'"
        by (auto simp: gather_descendants_alive.simps split: sum.splits)
      from "1.IH" [OF False cs] l show ?thesis using False cs by (auto simp: gather_step_def)
    qed
  qed
next
  case (2 wd cfg rem st)
  show ?case by (auto intro: exI [of _ "[]"] desc_step_nil)
next
  case (3 wd cfg raw cs rem st)
  show ?case
  proof (intro allI impI)
    fix st'
    assume l: "descendants_loop wd cfg (raw # cs) rem st = Inr st'"
    then obtain p where p: "get_person wd raw = Inr p" by (auto split: sum.splits)
    show "\<exists>new. desc_step wd cfg rem (raw # cs) st st' new"
    proof (cases "is_alive_on p CUTOFF_DATE (descendants_require_birth cfg)")
      case False
      with l p have "descendants_loop wd cfg cs rem st = Inr st'" by simp
      with "3.IH"(1) [OF p False] show ?thesis by (blast intro: desc_step_more)
    next
      case alive: True
      then have nn: "\<not> \<not> is_alive_on p CUTOFF_DATE (descendants_require_birth cfg)" by simp
      show ?thesis
      proof (cases "qid p \<in> descendant_qids st")
        case True
        with l p alive have "descendants_loop wd cfg cs rem st = Inr st'" by simp
        with "3.IH"(2) [OF p nn True] show ?thesis by (blast intro: desc_step_more)
      next
        case False
        define stA where "stA = st\<lparr>descendant_qids := insert (qid p) (descendant_qids st)\<rparr>"
        from l p alive False obtain st1 where
          g: "gather_descendants_alive wd cfg (qid p) (rem - 1) stA = Inr st1"
          and l2: "descendants_loop wd cfg cs rem st1 = Inr st'"
          by (auto simp: stA_def split: sum.splits)
        from "3.IH"(3) [OF p nn False] g have gs: "gather_step wd cfg (qid p) (rem - 1) stA st1"
          by (simp add: stA_def)
        from "3.IH"(4) [OF p nn False g [unfolded stA_def]] l2
        obtain new2 where n2: "desc_step wd cfg rem cs st1 st' new2" by blast
        have "\<exists>new1. (rem - 1 \<le> 0 \<and> st1 = st\<lparr>descendant_qids := insert (qid p) (descendant_qids st)\<rparr> \<and> new1 = [])
          \<or> (0 < rem - 1 \<and> (\<exists>cs' rest. fetch_children_qids wd (qid p) = Inr cs' \<and> new1 = (qid p, rem - 1) # rest \<and>
              desc_step wd cfg (rem - 1) cs'
                (st\<lparr>descendant_qids := insert (qid p) (descendant_qids st),
                     descendant_calls := descendant_calls st @ [(qid p, rem - 1)]\<rparr>) st1 rest))"
        proof (cases "rem - 1 \<le> 0")
          case True
          with gs show ?thesis by (simp add: gather_step_def stA_def)
        next
          case False
          with gs show ?thesis by (simp add: gather_step_def stA_def) blast
        qed
        then obtain new1 where n1: "(rem - 1 \<le> 0 \<and> st1 = st\<lparr>descendant_qids := insert (qid p) (descendant_qids st)\<rparr> \<and> new1 = [])
          \<or> (0 < rem - 1 \<and> (\<exists>cs' rest. fetch_children_qids wd (qid p) = Inr cs' \<and> new1 = (qid p, rem - 1) # rest \<and>
              desc_step wd cfg (rem - 1) cs'
                (st\<lparr>descendant_qids := insert (qid p) (descendant_qids st),
                     descendant_calls := descendant_calls st @ [(qid p, rem - 1)]\<rparr>) st1 rest))" ..
        from desc_step_child [OF get_person_passes [OF p alive] False n1 n2] show ?thesis ..
      qed
    qed
  qed
qed

lemma gather_ancestors_frame:
  "gather_ancestors wd cfg inc q0 depth st = Inr st' \<Longrightarrow>
   descendant_qids st' = descendant_qids st \<and> descendant_calls st' = descendant_calls st
   \<and> all_qids st' = all_qids st \<and> emitted st' = emitted st \<and> stdout st' = stdout st
   \<and> qid_to_char_id st' = qid_to_char_id st \<and> used_char_ids st' = used_char_ids st"
proof (induction wd cfg inc q0 depth st arbitrary: st' rule: gather_ancestors.induct)
  case (1 wd cfg inc q0 depth st)
  note res = "1.prems"
  show ?case
  proof (cases "normalize_qid q0")
    case (Inl e)
    with res show ?thesis by (subst (asm) gather_ancestors.simps) simp
  next
    case (Inr q)
    show ?thesis
    proof (cases "q \<in> visited_ancestors st")
      case True
      with res Inr show ?thesis by (subst (asm) gather_ancestors.simps) simp
    next
      case False
      from res Inr False obtain p where p: "get_person wd q = Inr p"
        by (subst (asm) gather_ancestors.simps) (cases "get_person wd q"; simp add: Let_def)
      define st1 where "st1 = st\<lparr>visited_ancestors := insert q (visited_ancestors st),
          ancestor_calls := ancestor_calls st @ [(q, depth)]\<rparr>"
      define st2 where "st2 = (if depth = 0
          then if inc then st1\<lparr>ancestor_qids := insert q (ancestor_qids st1)\<rparr> else st1
          else if is_alive_on p CUTOFF_DATE True
               then st1\<lparr>ancestor_qids := insert q (ancestor_qids st1)\<rparr> else st1)"
      have vn: "visit_node inc p q depth st = st2"
        by (simp add: visit_node_def st1_def st2_def Let_def)
      note unfold = gather_ancestors_unfold [OF Inr False p, of cfg inc depth, unfolded vn]
      have f2: "descendant_qids st2 = descendant_qids st \<and> descendant_calls st2 = descendant_calls st
         \<and> all_qids st2 = all_qids st \<and> emitted st2 = emitted st \<and> stdout st2 = stdout st
         \<and> qid_to_char_id st2 = qid_to_char_id st \<and> used_char_ids st2 = used_char_ids st"
        by (simp add: st1_def st2_def)
      show ?thesis
      proof (cases "max_ancestor_depth cfg \<le> depth")
        case True
        with res have "st' = st2" by (simp add: unfold)
        with f2 show ?thesis by simp
      next
        case deep: False
        define rf where "rf = (if truthy (father_qid p)
            then gather_ancestors wd cfg inc (the (father_qid p)) (depth + 1) st2 else Inr st2)"
        from res deep have unf:
          "(case rf of Inl e \<Rightarrow> Inl e
            | Inr st3 \<Rightarrow> if truthy (mother_qid p)
                then gather_ancestors wd cfg inc (the (mother_qid p)) (depth + 1) st3
                else Inr st3) = Inr st'"
          by (simp add: unfold rf_def)
        then obtain st3 where rf: "rf = Inr st3" by (cases rf) auto
        with unf have rm: "(if truthy (mother_qid p)
                then gather_ancestors wd cfg inc (the (mother_qid p)) (depth + 1) st3
                else Inr st3) = Inr st'" by simp
        have rf': "(if truthy (father_qid p)
            then gather_ancestors wd cfg inc (the (father_qid p)) (depth + 1) st2 else Inr st2) = Inr st3"
          using rf by (simp add: rf_def)
        have f3: "descendant_qids st3 = descendant_qids st2 \<and> descendant_calls st3 = descendant_calls st2
         \<and> all_qids st3 = all_qids st2 \<and> emitted st3 = emitted st2 \<and> stdout st3 = stdout st2
         \<and> qid_to_char_id st3 = qid_to_char_id st2 \<and> used_char_ids st3 = used_char_ids st2"
        proof (cases "truthy (father_qid p)")
          case True
          with rf' have "gather_ancestors wd cfg inc (the (father_qid p)) (depth + 1) st2 = Inr st3" by simp
          from "1.IH"(1) [OF Inr False st1_def p st2_def deep True this] show ?thesis .
        next
          case False
          with rf' show ?thesis by simp
        qed
        have f4: "descendant_qids st' = descendant_qids st3 \<and> descendant_calls st' = descendant_calls st3
         \<and> all_qids st' = all_qids st3 \<and> emitted st' = emitted st3 \<and> stdout st' = stdout st3
         \<and> qid_to_char_id st' = qid_to_char_id st3 \<and> used_char_ids st' = used_char_ids st3"
        proof (cases "truthy (mother_qid p)")
          case True
          with rm have "gather_ancestors wd cfg inc (the (mother_qid p)) (depth + 1) st3 = Inr st'" by simp
          from "1.IH"(2) [OF Inr False st1_def p st2_def deep rf' True this] show ?thesis .
        next
          case False
          with rm show ?thesis by simp
        qed
        from f2 f3 f4 show ?thesis by simp
      qed
    qed
  qed
qed

lemma fathers_loop_frame:
  "fathers_loop wd qs st nf = Inr (st', nf') \<Longrightarrow>
   descendant_qids st' = descendant_qids st \<and> descendant_calls st' = descendant_calls st
   \<and> ancestor_qids st' = ancestor_qids st \<and> ancestor_calls st' = ancestor_calls st
   \<and> emitted st' = emitted st \<and> stdout st' = stdout st
   \<and> qid_to_char_id st' = qid_to_char_id st \<and> used_char_ids st' = used_char_ids st
   \<and> all_qids st \<subseteq> all_qids st'"
proof (induction qs arbitrary: st nf)
  case Nil
  then show ?case by simp
next
  case (Cons q qs)
  from Cons.prems obtain p where p: "get_person wd q = Inr p" by (auto split: sum.splits)
  show ?case
  proof (cases "truthy (father_qid p) \<and> the (father_qid p) \<notin> all_qids st")
    case True
    with Cons.prems p have "fathers_loop wd qs (st\<lparr>all_qids := insert (the (father_qid p)) (all_qids st)\<rparr>)
        (insert (the (father_qid p)) nf) = Inr (st', nf')" by simp
    from Cons.IH [OF this] show ?thesis by auto
  next
    case False
    with Cons.prems p have "fathers_loop wd qs st nf = Inr (st', nf')" by auto
    from Cons.IH [OF this] show ?thesis .
  qed
qed

lemma ensure_fathers_frame:
  "ensure_fathers wd n frontier st = Inr st' \<Longrightarrow>
   descendant_qids st' = descendant_qids st \<and> descendant_calls st' = descendant_calls st
   \<and> ancestor_qids st' = ancestor_qids st \<and> ancestor_calls st' = ancestor_calls st
   \<and> emitted st' = emitted st \<and> stdout st' = stdout st
   \<and> qid_to_char_id st' = qid_to_char_id st \<and> used_char_ids st' = used_char_ids st
   \<and> all_qids st \<subseteq> all_qids st'"
proof (induction n arbitrary: frontier st)
  case 0
  then show ?case by simp
next
  case (Suc n)
  from Suc.prems obtain st1 nf where l: "fathers_loop wd (sorted_list_of_set frontier) st {} = Inr (st1, nf)"
    by (auto split: sum.splits)
  note f1 = fathers_loop_frame [OF l]
  show ?case
  proof (cases "nf = {}")
    case True
    with Suc.prems l have "st' = st1" by simp
    with f1 show ?thesis by simp
  next
    case False
    with Suc.prems l have "ensure_fathers wd n nf st1 = Inr st'" by simp
    from Suc.IH [OF this] f1 show ?thesis by auto
  qed
qed

text \<open>What \<open>collect\<close> does, step by step, when it returns.\<close>

lemma collect_Inr:
  assumes "collect wd cfg root = Inr (inc, r, st)"
  obtains p st1 st2 where
    "normalize_qid root = Inr r" "get_person wd r = Inr p"
    "inc = (include_root_if_not_alive cfg \<or> is_alive_on p CUTOFF_DATE False)"
    "gather_ancestors wd cfg inc r 0 init_state = Inr st1"
    "(if inc then gather_descendants_alive wd cfg r (max_descendant_depth cfg) st1 else Inr st1) = Inr st2"
    "(if ensure_fathers_depth cfg > 0
      then ensure_fathers wd (nat (ensure_fathers_depth cfg)) (ancestor_qids st2 \<union> descendant_qids st2)
             (st2\<lparr>all_qids := ancestor_qids st2 \<union> descendant_qids st2\<rparr>)
      else Inr (st2\<lparr>all_qids := ancestor_qids st2 \<union> descendant_qids st2\<rparr>)) = Inr st"
  using assms unfolding collect_def
  by (auto simp: Let_def split: sum.splits if_splits)

text \<open>
  Claim C5. When the collection returns: with the root excluded, or a depth bound of zero,
  no descendant is gathered and no children are fetched; otherwise the first fetch is for
  the root with the full bound, and every later fetch is for a child that passed the
  liveness filter and was included, with a remaining bound that is positive and one less
  than that of the fetch that listed it. Every identifier gathered passed the filter.
\<close>

theorem descendants_stop_at_excluded:
  assumes c: "collect wd cfg root = Inr (inc, r, st)"
  shows "(\<not> inc \<or> max_descendant_depth cfg \<le> 0 \<longrightarrow> descendant_qids st = {} \<and> descendant_calls st = [])
     \<and> (inc \<and> 0 < max_descendant_depth cfg \<longrightarrow>
           descendant_calls st \<noteq> [] \<and> hd (descendant_calls st) = (r, max_descendant_depth cfg))
     \<and> (\<forall>x \<in> descendant_qids st. passes_filter wd cfg x)
     \<and> (\<forall>(x, k) \<in> set (tl (descendant_calls st)).
           0 < k \<and> k < max_descendant_depth cfg \<and> x \<in> descendant_qids st \<and> passes_filter wd cfg x
           \<and> (\<exists>q. (q, k + 1) \<in> set (descendant_calls st) \<and> is_child wd q x))"
proof -
  from c obtain p st1 st2 where r: "normalize_qid root = Inr r"
    and ga: "gather_ancestors wd cfg inc r 0 init_state = Inr st1"
    and gd: "(if inc then gather_descendants_alive wd cfg r (max_descendant_depth cfg) st1 else Inr st1) = Inr st2"
    and ef: "(if ensure_fathers_depth cfg > 0
      then ensure_fathers wd (nat (ensure_fathers_depth cfg)) (ancestor_qids st2 \<union> descendant_qids st2)
             (st2\<lparr>all_qids := ancestor_qids st2 \<union> descendant_qids st2\<rparr>)
      else Inr (st2\<lparr>all_qids := ancestor_qids st2 \<union> descendant_qids st2\<rparr>)) = Inr st"
    by (rule collect_Inr)
  have f1: "descendant_qids st1 = {}" "descendant_calls st1 = []"
    using gather_ancestors_frame [OF ga] by (simp_all add: init_state_def)
  have f: "descendant_qids st = descendant_qids st2" "descendant_calls st = descendant_calls st2"
  proof -
    show "descendant_qids st = descendant_qids st2"
      using ef ensure_fathers_frame [of wd _ _ "st2\<lparr>all_qids := ancestor_qids st2 \<union> descendant_qids st2\<rparr>" st]
      by (auto split: if_splits)
    show "descendant_calls st = descendant_calls st2"
      using ef ensure_fathers_frame [of wd _ _ "st2\<lparr>all_qids := ancestor_qids st2 \<union> descendant_qids st2\<rparr>" st]
      by (auto split: if_splits)
  qed
  let ?m = "max_descendant_depth cfg"
  show ?thesis
  proof (cases "inc \<and> 0 < ?m")
    case False
    then have "st2 = st1"
    proof (cases inc)
      case True
      with False gd have "gather_descendants_alive wd cfg r ?m st1 = Inr st2" "?m \<le> 0" by auto
      then show ?thesis by (simp add: gather_descendants_alive.simps)
    next
      case False
      with gd show ?thesis by simp
    qed
    with f f1 False show ?thesis by auto
  next
    case True
    with gd have g: "gather_descendants_alive wd cfg r ?m st1 = Inr st2" by simp
    with gather_descendants_step(1) [of wd cfg r ?m st1] have "gather_step wd cfg r ?m st1 st2" by blast
    with True obtain cs rest where cs: "fetch_children_qids wd r = Inr cs"
      and d: "desc_step wd cfg ?m cs (st1\<lparr>descendant_calls := descendant_calls st1 @ [(r, ?m)]\<rparr>) st2 rest"
      by (auto simp: gather_step_def)
    have calls: "descendant_calls st2 = (r, ?m) # rest"
      using d f1 unfolding desc_step_def by simp
    have alive: "\<forall>x \<in> descendant_qids st2. passes_filter wd cfg x"
      using d f1 unfolding desc_step_def by simp
    have each: "\<forall>(x, k) \<in> set rest. 0 < k \<and> k < ?m \<and> x \<in> descendant_qids st2
            \<and> ((k = ?m - 1 \<and> (\<exists>raw \<in> set cs. normalize_qid raw = Inr x))
                \<or> (\<exists>q. (q, k + 1) \<in> set rest \<and> is_child wd q x))"
      using d unfolding desc_step_def by fastforce
    have "0 < k \<and> k < ?m \<and> x \<in> descendant_qids st2 \<and> passes_filter wd cfg x
           \<and> (\<exists>q. (q, k + 1) \<in> set ((r, ?m) # rest) \<and> is_child wd q x)"
      if xk: "(x, k) \<in> set rest" for x k
    proof -
      from each xk have b: "0 < k" "k < ?m" "x \<in> descendant_qids st2"
        and alt: "(k = ?m - 1 \<and> (\<exists>raw \<in> set cs. normalize_qid raw = Inr x))
                \<or> (\<exists>q. (q, k + 1) \<in> set rest \<and> is_child wd q x)"
        by auto
      from alt have "\<exists>q. (q, k + 1) \<in> set ((r, ?m) # rest) \<and> is_child wd q x"
      proof
        assume h: "k = ?m - 1 \<and> (\<exists>raw \<in> set cs. normalize_qid raw = Inr x)"
        then obtain raw where "raw \<in> set cs" "normalize_qid raw = Inr x" by blast
        moreover from this cs have "normalize_qid raw = Inr raw"
          by (blast intro: normalize_qid_valid fetch_children_valid)
        ultimately have "is_child wd r x" using cs by (simp add: is_child_def)
        with h show ?thesis by auto
      next
        assume "\<exists>q. (q, k + 1) \<in> set rest \<and> is_child wd q x"
        then show ?thesis by auto
      qed
      with b alive show ?thesis by blast
    qed
    then have t: "\<forall>(x, k) \<in> set rest. 0 < k \<and> k < ?m \<and> x \<in> descendant_qids st2 \<and> passes_filter wd cfg x
           \<and> (\<exists>q. (q, k + 1) \<in> set ((r, ?m) # rest) \<and> is_child wd q x)"
      by blast
    show ?thesis unfolding f calls using True alive t by simp
  qed
qed

lemma family_persons:
  "get_person wd_family ''Q1'' = Inr \<lparr>qid = ''Q1'', label_en = None, label_ja = None,
     birth = Some ''1400-01-01'', death = None, father_qid = None, mother_qid = None,
     birth_place_en = None\<rparr>"
  "get_person wd_family ''Q2'' = Inr \<lparr>qid = ''Q2'', label_en = None, label_ja = None,
     birth = Some ''1420-01-01'', death = None, father_qid = Some ''Q1'', mother_qid = None,
     birth_place_en = None\<rparr>"
  "get_person wd_family ''Q3'' = Inr \<lparr>qid = ''Q3'', label_en = None, label_ja = None,
     birth = Some ''1421-01-01'', death = Some ''1430-01-01'', father_qid = Some ''Q1'', mother_qid = None,
     birth_place_en = None\<rparr>"
  "get_person wd_family ''Q4'' = Inr \<lparr>qid = ''Q4'', label_en = None, label_ja = None,
     birth = Some ''1440-01-01'', death = None, father_qid = Some ''Q2'', mother_qid = None,
     birth_place_en = None\<rparr>"
  by (simp_all add: get_person_def fetch_person_def read_person_simps norm_Qs wd_family_def parents_row_def rsplit_last_def)

lemma family_children:
  "fetch_children_qids wd_family ''Q1'' = Inr [''Q2'', ''Q3'']"
  "fetch_children_qids wd_family ''Q2'' = Inr [''Q4'']"
  by (simp_all add: fetch_children_qids_def read_children_simps List.map_filter_simps norm_Qs wd_family_def
      child_row_def rsplit_last_def is_digit_def)

lemma alive_family:
  "is_alive_on \<lparr>qid = a, label_en = b, label_ja = c, birth = Some ''1400-01-01'',
      death = None, father_qid = f, mother_qid = g, birth_place_en = h\<rparr> CUTOFF_DATE rb = True"
  "is_alive_on \<lparr>qid = a, label_en = b, label_ja = c, birth = Some ''1420-01-01'',
      death = None, father_qid = f, mother_qid = g, birth_place_en = h\<rparr> CUTOFF_DATE rb = True"
  "is_alive_on \<lparr>qid = a, label_en = b, label_ja = c, birth = Some ''1421-01-01'',
      death = Some ''1430-01-01'', father_qid = f, mother_qid = g, birth_place_en = h\<rparr> CUTOFF_DATE rb = False"
  "is_alive_on \<lparr>qid = a, label_en = b, label_ja = c, birth = Some ''1440-01-01'',
      death = None, father_qid = f, mother_qid = g, birth_place_en = h\<rparr> CUTOFF_DATE rb = True"
  by (simp_all add: date_defs is_digit_def in_range_def)

lemma collect_family: "collect wd_family cfg_two_down ''Q1'' = Inr (True, ''Q1'', family_collected)"
  by (simp add: collect_def gather_ancestors.simps gather_descendants_alive.simps norm_Qs family_persons
      family_children alive_family cfg_two_down_def cfg_default_def init_state_def family_collected_def
      insert_commute)

lemma collect_dead_root: "collect wd_family cfg_two_down ''Q3'' = Inr (False, ''Q3'', dead_root_collected)"
  by (simp add: collect_def gather_ancestors.simps gather_descendants_alive.simps norm_Qs family_persons
      family_children alive_family cfg_two_down_def cfg_default_def init_state_def dead_root_collected_def
      insert_commute)

theorem descendants_stop_at_excluded_witness:
  "collect wd_family cfg_two_down ''Q1'' = Inr (True, ''Q1'', family_collected)
   \<and> descendant_calls family_collected = [(''Q1'', 2), (''Q2'', 1)]
   \<and> descendant_qids family_collected = {''Q4'', ''Q2''}
   \<and> passes_filter wd_family cfg_two_down ''Q2''
   \<and> is_child wd_family ''Q1'' ''Q3'' \<and> \<not> passes_filter wd_family cfg_two_down ''Q3''
   \<and> collect wd_family cfg_two_down ''Q3'' = Inr (False, ''Q3'', dead_root_collected)
   \<and> descendant_qids dead_root_collected = {} \<and> descendant_calls dead_root_collected = []"
proof -
  note t1 = descendants_stop_at_excluded [OF collect_family]
  note t2 = descendants_stop_at_excluded [OF collect_dead_root]
  have c: "descendant_calls family_collected = [(''Q1'', 2), (''Q2'', 1)]"
    "descendant_qids family_collected = {''Q4'', ''Q2''}"
    by (simp_all add: family_collected_def)
  from t1 have "\<forall>(x, k) \<in> set (tl (descendant_calls family_collected)). passes_filter wd_family cfg_two_down x"
    by fastforce
  then have p: "passes_filter wd_family cfg_two_down ''Q2''" by (simp add: c)
  have n: "is_child wd_family ''Q1'' ''Q3''" "\<not> passes_filter wd_family cfg_two_down ''Q3''"
    by (simp_all add: is_child_def family_children passes_filter_def family_persons alive_family)
  from t2 have e: "descendant_qids dead_root_collected = {} \<and> descendant_calls dead_root_collected = []"
    by simp
  from collect_family collect_dead_root c p n e show ?thesis by simp
qed

section \<open>The Topological Emitter: properties\<close>

lemma alloc_only_refl: "alloc_only st st"
  by (simp add: alloc_only_def)

lemma alloc_only_trans: "alloc_only a b \<Longrightarrow> alloc_only b c \<Longrightarrow> alloc_only a c"
  unfolding alloc_only_def
  by (metis (no_types, lifting) state.surjective state.update_convs(1) state.update_convs(2))

lemma alloc_only_fields:
  assumes "alloc_only st st'"
  shows "emitted st' = emitted st" "stdout st' = stdout st" "all_qids st' = all_qids st"
    "ancestor_qids st' = ancestor_qids st" "descendant_qids st' = descendant_qids st"
proof -
  from assms have e: "st' = st\<lparr>qid_to_char_id := qid_to_char_id st', used_char_ids := used_char_ids st'\<rparr>"
    by (simp add: alloc_only_def)
  show "emitted st' = emitted st" by (subst e) simp
  show "stdout st' = stdout st" by (subst e) simp
  show "all_qids st' = all_qids st" by (subst e) simp
  show "ancestor_qids st' = ancestor_qids st" by (subst e) simp
  show "descendant_qids st' = descendant_qids st" by (subst e) simp
qed

lemma id_for_qid_Inr:
  assumes "id_for_qid wd cfg q0 st = Inr (c, st')"
  shows "\<exists>q. normalize_qid q0 = Inr q \<and> qid_to_char_id st' q = Some c" "alloc_only st st'"
proof -
  from assms obtain q where q: "normalize_qid q0 = Inr q"
    by (auto simp: id_for_qid_def split: sum.splits)
  show "\<exists>q. normalize_qid q0 = Inr q \<and> qid_to_char_id st' q = Some c"
    using assms q by (auto simp: id_for_qid_def Let_def split: sum.splits option.splits)
  show "alloc_only st st'"
    using assms q by (auto simp: id_for_qid_def Let_def alloc_only_def split: sum.splits option.splits)
qed

lemma refs_simps:
  "father_refs (xs @ ys) = father_refs xs @ father_refs ys"
  "mother_refs (xs @ ys) = mother_refs xs @ mother_refs ys"
  "father_refs [] = []" "mother_refs [] = []"
  "father_refs (x # xs) = (case line_father x of None \<Rightarrow> father_refs xs | Some f \<Rightarrow> f # father_refs xs)"
  "mother_refs (x # xs) = (case line_mother x of None \<Rightarrow> mother_refs xs | Some f \<Rightarrow> f # mother_refs xs)"
  by (simp_all add: father_refs_def mother_refs_def List.map_filter_def split: option.splits)

lemma render_character_entry_Inr:
  assumes r: "render_character_entry wd cfg p c True (Some A) st = Inr (ls, st')"
  shows "\<exists>rest. ls = Header c (label_ja p) (qid p) # rest"
    and "alloc_only st st'"
    and "if truthy (father_qid p)
         then \<exists>nf f. normalize_qid (the (father_qid p)) = Inr nf \<and> qid_to_char_id st' nf = Some f
                \<and> father_refs ls = [f]
         else father_refs ls = []"
    and "if truthy (mother_qid p) \<and> the (mother_qid p) \<in> A
         then \<exists>nm m. normalize_qid (the (mother_qid p)) = Inr nm \<and> qid_to_char_id st' nm = Some m
                \<and> mother_refs ls = [m]
         else mother_refs ls = []"
proof -
  define lines4 where "lines4 =
     ((([Header c (label_ja p) (qid p),
      First_name (make_name_token p (name_prefix cfg) (name_fallback_prefix cfg)),
      Culture (culture cfg), Religion (religion cfg)]
     @ (if truthy (iso_to_eu_date (birth p)) then [Birth_date (the (iso_to_eu_date (birth p)))] else []))
     @ (if truthy (iso_to_eu_date (death p)) \<and> parse_iso_date (death p) \<noteq> None
            \<and> date_le (the (parse_iso_date (death p))) CUTOFF_DATE
        then [Death_date (the (iso_to_eu_date (death p)))] else []))
     @ (if truthy (birth_location cfg) then [Birth (the (birth_location cfg))]
        else if truthy (birth_place_en p) then [Birth_todo (the (birth_place_en p))] else []))
     @ (if truthy (dynasty cfg) then [Dynasty (the (dynasty cfg))] else [])"
  define tail where "tail = (if truthy (tag cfg) then [Tag (the (tag cfg))] else []) @ [Close]"
  have l4: "father_refs lines4 = []" "mother_refs lines4 = []" "\<exists>rest. lines4 = Header c (label_ja p) (qid p) # rest"
    by (simp_all add: lines4_def refs_simps)
  have tl: "father_refs tail = []" "mother_refs tail = []"
    by (simp_all add: tail_def refs_simps)
  define fstep where "fstep = (if truthy (father_qid p)
                  then (case id_for_qid wd cfg (the (father_qid p)) st of
                          Inl e \<Rightarrow> Inl e
                        | Inr (f, st1) \<Rightarrow> Inr (lines4 @ [Father f], st1))
                  else Inr (lines4, st))"
  have unf: "render_character_entry wd cfg p c True (Some A) st =
      (case fstep of
              Inl e \<Rightarrow> Inl e
            | Inr (lines5, st1) \<Rightarrow>
                (if truthy (mother_qid p) \<and> the (mother_qid p) \<in> A
                 then (case id_for_qid wd cfg (the (mother_qid p)) st1 of
                         Inl e \<Rightarrow> Inl e
                       | Inr (m, st2) \<Rightarrow> Inr (lines5 @ [Mother m] @ tail, st2))
                 else Inr (lines5 @ tail, st1)))"
    unfolding render_character_entry_def Let_def lines4_def tail_def fstep_def option.case
    by simp
  from r unf obtain lines5 st1 where f5: "fstep = Inr (lines5, st1)"
    by (cases fstep) auto
  have f: "alloc_only st st1 \<and> (\<exists>rest. lines5 = Header c (label_ja p) (qid p) # rest)
      \<and> mother_refs lines5 = []
      \<and> (if truthy (father_qid p)
          then \<exists>nf f. normalize_qid (the (father_qid p)) = Inr nf \<and> qid_to_char_id st1 nf = Some f
                \<and> father_refs lines5 = [f]
          else father_refs lines5 = [])"
  proof (cases "truthy (father_qid p)")
    case True
    with f5 obtain f where i: "id_for_qid wd cfg (the (father_qid p)) st = Inr (f, st1)"
      and l5: "lines5 = lines4 @ [Father f]"
      by (auto simp: fstep_def split: sum.splits)
    from id_for_qid_Inr [OF i] l4 l5 True show ?thesis by (auto simp: refs_simps)
  next
    case False
    with f5 have "lines5 = lines4" "st1 = st" by (simp_all add: fstep_def)
    with l4 False show ?thesis by (simp add: alloc_only_refl)
  qed
  let ?mc = "truthy (mother_qid p) \<and> the (mother_qid p) \<in> A"
  have m: "alloc_only st1 st' \<and> (\<exists>rest. ls = lines5 @ rest \<and> father_refs rest = [])
      \<and> (if ?mc
          then \<exists>nm m. normalize_qid (the (mother_qid p)) = Inr nm \<and> qid_to_char_id st' nm = Some m
                \<and> mother_refs ls = [m]
          else mother_refs ls = [])"
  proof (cases ?mc)
    case True
    with r unf f5 obtain m where i: "id_for_qid wd cfg (the (mother_qid p)) st1 = Inr (m, st')"
      and l: "ls = lines5 @ [Mother m] @ tail"
      by (auto split: sum.splits)
    from id_for_qid_Inr [OF i] l tl f True show ?thesis by (auto simp: refs_simps)
  next
    case False
    with r unf f5 have "ls = lines5 @ tail" "st' = st1" by auto
    with tl f False show ?thesis by (auto simp: refs_simps alloc_only_refl)
  qed
  from f m show "\<exists>rest. ls = Header c (label_ja p) (qid p) # rest" by auto
  from f m show "alloc_only st st'" by (blast intro: alloc_only_trans)
  from m show "if ?mc
         then \<exists>nm m. normalize_qid (the (mother_qid p)) = Inr nm \<and> qid_to_char_id st' nm = Some m
                \<and> mother_refs ls = [m]
         else mother_refs ls = []" by blast
  from m obtain rest where rest: "ls = lines5 @ rest" "father_refs rest = []" by blast
  from m have a: "alloc_only st1 st'" by simp
  show "if truthy (father_qid p)
         then \<exists>nf f. normalize_qid (the (father_qid p)) = Inr nf \<and> qid_to_char_id st' nf = Some f
                \<and> father_refs ls = [f]
         else father_refs ls = []"
  proof (cases "truthy (father_qid p)")
    case True
    with f obtain nf f' where "normalize_qid (the (father_qid p)) = Inr nf" "qid_to_char_id st1 nf = Some f'"
      "father_refs lines5 = [f']" by auto
    moreover from this a have "qid_to_char_id st' nf = Some f'" by (simp add: alloc_only_def)
    ultimately show ?thesis using True rest by (auto simp: refs_simps)
  next
    case False
    with f rest show ?thesis by (simp add: refs_simps)
  qed
qed

lemma print_entry_Inr:
  assumes pe: "print_entry wd cfg q p st = Inr st'" and qp: "qid p = q" and nq: "normalize_qid q = Inr q"
  shows "\<exists>c ls rest. stdout st' = stdout st @ (if emitted st \<noteq> {} then [Blank] else []) @ [Entry ls]
      \<and> ls = Header c (label_ja p) q # rest
      \<and> qid_to_char_id st' q = Some c
      \<and> (if truthy (father_qid p)
          then \<exists>nf f. normalize_qid (the (father_qid p)) = Inr nf \<and> qid_to_char_id st' nf = Some f
                \<and> father_refs ls = [f]
          else father_refs ls = [])
      \<and> (if truthy (mother_qid p) \<and> the (mother_qid p) \<in> all_qids st
          then \<exists>nm m. normalize_qid (the (mother_qid p)) = Inr nm \<and> qid_to_char_id st' nm = Some m
                \<and> mother_refs ls = [m]
          else mother_refs ls = [])"
    and "emitted st' = insert q (emitted st)"
    and "all_qids st' = all_qids st" "ancestor_qids st' = ancestor_qids st"
      "descendant_qids st' = descendant_qids st"
    and "\<forall>x c. qid_to_char_id st x = Some c \<longrightarrow> qid_to_char_id st' x = Some c"
proof -
  define st1 where "st1 = (if emitted st \<noteq> {} then st\<lparr>stdout := stdout st @ [Blank]\<rparr> else st)"
  from pe obtain c st2 ls st3 where i: "id_for_qid wd cfg (qid p) st1 = Inr (c, st2)"
    and r: "render_character_entry wd cfg p c True (Some (all_qids st2)) st2 = Inr (ls, st3)"
    and e: "st' = st3\<lparr>stdout := stdout st3 @ [Entry ls], emitted := insert q (emitted st3)\<rparr>"
    by (auto simp: print_entry_def Let_def st1_def split: sum.splits)
  note a12 = id_for_qid_Inr(2) [OF i]
  note a23 = render_character_entry_Inr(2) [OF r]
  note f12 = alloc_only_fields [OF a12]
  note f23 = alloc_only_fields [OF a23]
  have s1: "stdout st1 = stdout st @ (if emitted st \<noteq> {} then [Blank] else [])"
    "emitted st1 = emitted st" "all_qids st1 = all_qids st" "ancestor_qids st1 = ancestor_qids st"
    "descendant_qids st1 = descendant_qids st" "qid_to_char_id st1 = qid_to_char_id st"
    by (simp_all add: st1_def)
  have m': "qid_to_char_id st' = qid_to_char_id st3" by (simp add: e)
  from id_for_qid_Inr(1) [OF i] qp nq have "qid_to_char_id st2 q = Some c" by auto
  with a23 have c3: "qid_to_char_id st3 q = Some c" by (simp add: alloc_only_def)
  from render_character_entry_Inr(1) [OF r] qp obtain rest where ls: "ls = Header c (label_ja p) q # rest"
    by auto
  have out: "stdout st' = stdout st @ (if emitted st \<noteq> {} then [Blank] else []) @ [Entry ls]"
    using e f12 f23 s1 by simp
  show "\<exists>c ls rest. stdout st' = stdout st @ (if emitted st \<noteq> {} then [Blank] else []) @ [Entry ls]
      \<and> ls = Header c (label_ja p) q # rest
      \<and> qid_to_char_id st' q = Some c
      \<and> (if truthy (father_qid p)
          then \<exists>nf f. normalize_qid (the (father_qid p)) = Inr nf \<and> qid_to_char_id st' nf = Some f
                \<and> father_refs ls = [f]
          else father_refs ls = [])
      \<and> (if truthy (mother_qid p) \<and> the (mother_qid p) \<in> all_qids st
          then \<exists>nm m. normalize_qid (the (mother_qid p)) = Inr nm \<and> qid_to_char_id st' nm = Some m
                \<and> mother_refs ls = [m]
          else mother_refs ls = [])"
    using out ls c3 render_character_entry_Inr(3,4) [OF r] unfolding m' f12 s1 by blast
  show "emitted st' = insert q (emitted st)" using e f12 f23 s1 by simp
  show "all_qids st' = all_qids st" using e f12 f23 s1 by simp
  show "ancestor_qids st' = ancestor_qids st" using e f12 f23 s1 by simp
  show "descendant_qids st' = descendant_qids st" using e f12 f23 s1 by simp
  show "\<forall>x c. qid_to_char_id st x = Some c \<longrightarrow> qid_to_char_id st' x = Some c"
    using a12 a23 unfolding m' alloc_only_def s1 by blast
qed

lemma each_after_Nil: "each_after Q []"
  by (simp add: each_after_def)

lemma each_after_snoc: "each_after Q (xs @ [x]) = (each_after Q xs \<and> Q xs x)"
proof
  assume a: "each_after Q (xs @ [x])"
  have "Q ys y" if "xs = ys @ y # zs" for ys y zs
  proof -
    from that have "xs @ [x] = ys @ y # (zs @ [x])" by simp
    with a show ?thesis unfolding each_after_def by blast
  qed
  moreover from a have "Q xs x" unfolding each_after_def by blast
  ultimately show "each_after Q xs \<and> Q xs x" unfolding each_after_def by blast
next
  assume a: "each_after Q xs \<and> Q xs x"
  show "each_after Q (xs @ [x])"
    unfolding each_after_def
  proof (intro allI impI)
    fix ys y zs
    assume e: "xs @ [x] = ys @ y # zs"
    show "Q ys y"
    proof (cases zs rule: rev_cases)
      case Nil
      with e have "ys = xs" "y = x" by simp_all
      with a show ?thesis by simp
    next
      case (snoc zs' z)
      with e have "xs = ys @ y # zs'" by simp
      with a show ?thesis unfolding each_after_def by blast
    qed
  qed
qed

lemma each_after_mono:
  "each_after Q xs \<Longrightarrow> (\<And>ys x. Q ys x \<Longrightarrow> Q' ys x) \<Longrightarrow> each_after Q' xs"
  unfolding each_after_def by blast

lemma headers_simps:
  "headers [] = []"
  "headers (Blank # out) = headers out"
  "headers (Entry (Header c ja q # rest) # out) = (c, q) # headers out"
  "headers (xs @ ys) = headers xs @ headers ys"
  by (simp_all add: headers_def List.map_filter_def)

lemma printed_qids_simps:
  "printed_qids [] = []"
  "printed_qids (out @ [Blank]) = printed_qids out"
  "printed_qids (out @ [Entry (Header c ja q # rest)]) = printed_qids out @ [q]"
  by (simp_all add: printed_qids_def headers_def List.map_filter_def)

lemma emit_post_skip:
  "emit_inv wd st \<Longrightarrow> normalize_qid q0 = Inr q \<Longrightarrow> q \<in> emitted st \<Longrightarrow> emit_post wd q0 st st"
  by (simp add: emit_post_def)

lemma emit_post_parent:
  assumes "if truthy raw \<and> the raw \<in> all_qids st then emit_post wd (the raw) st st' else st' = st"
    and "emit_inv wd st"
  shows "emit_inv wd st'" "all_qids st' = all_qids st" "ancestor_qids st' = ancestor_qids st"
    "descendant_qids st' = descendant_qids st" "emitted st \<subseteq> emitted st'"
    "acyclic (parent_rel wd (all_qids st)) \<Longrightarrow> distinct (printed_qids (stdout st)) \<Longrightarrow>
       distinct (printed_qids (stdout st'))"
    "truthy raw \<and> the raw \<in> all_qids st \<Longrightarrow>
       \<exists>n. normalize_qid (the raw) = Inr n \<and> n \<in> emitted st'
         \<and> (\<forall>x \<in> emitted st' - emitted st. (x, n) \<in> (parent_rel wd (all_qids st))\<^sup>*)"
    "\<not> (truthy raw \<and> the raw \<in> all_qids st) \<Longrightarrow> emitted st' = emitted st"
  using assms by (auto simp: emit_post_def split: if_splits)

lemma parent_in_set_iff:
  "(x \<in> set (parent_in_set A raw)) = (truthy raw \<and> the raw \<in> A \<and> normalize_qid (the raw) = Inr x)"
proof (cases "truthy raw \<and> the raw \<in> A")
  case False
  then have "parent_in_set A raw = []" unfolding parent_in_set_def by (rule if_not_P)
  with False show ?thesis by auto
next
  case True
  then have e: "parent_in_set A raw = (case normalize_qid (the raw) of Inl e \<Rightarrow> [] | Inr y \<Rightarrow> [y])"
    unfolding parent_in_set_def by (rule if_P)
  show ?thesis
  proof (cases "normalize_qid (the raw)")
    case (Inl err)
    with e have "parent_in_set A raw = []" by simp
    with Inl show ?thesis by simp
  next
    case (Inr y)
    with e have "parent_in_set A raw = [y]" by simp
    with Inr True show ?thesis by auto
  qed
qed

lemma in_set_parents_iff:
  "get_person wd q = Inr p \<Longrightarrow>
   (x \<in> set (in_set_parents wd A q)) =
     ((truthy (father_qid p) \<and> the (father_qid p) \<in> A \<and> normalize_qid (the (father_qid p)) = Inr x)
      \<or> (truthy (mother_qid p) \<and> the (mother_qid p) \<in> A \<and> normalize_qid (the (mother_qid p)) = Inr x))"
  by (simp add: in_set_parents_def parent_in_set_iff)

lemma parent_rel_iff: "((x, q) \<in> parent_rel wd A) = (x \<in> set (in_set_parents wd A q))"
  unfolding parent_rel_def by blast

lemma in_set_parents_father:
  "get_person wd q = Inr p \<Longrightarrow> truthy (father_qid p) \<Longrightarrow> the (father_qid p) \<in> A \<Longrightarrow>
   normalize_qid (the (father_qid p)) = Inr n \<Longrightarrow> (n, q) \<in> parent_rel wd A"
  by (simp add: parent_rel_iff in_set_parents_iff)

lemma in_set_parents_mother:
  "get_person wd q = Inr p \<Longrightarrow> truthy (mother_qid p) \<Longrightarrow> the (mother_qid p) \<in> A \<Longrightarrow>
   normalize_qid (the (mother_qid p)) = Inr n \<Longrightarrow> (n, q) \<in> parent_rel wd A"
  by (simp add: parent_rel_iff in_set_parents_iff)

lemma in_set_parents_cases:
  assumes "get_person wd q = Inr p" "x \<in> set (in_set_parents wd A q)"
  shows "(truthy (father_qid p) \<and> the (father_qid p) \<in> A \<and> normalize_qid (the (father_qid p)) = Inr x)
       \<or> (truthy (mother_qid p) \<and> the (mother_qid p) \<in> A \<and> normalize_qid (the (mother_qid p)) = Inr x)"
  using assms by (simp add: in_set_parents_iff)

lemma emit_node:
  assumes inv: "emit_inv wd st"
    and nq: "normalize_qid q0 = Inr q" and ne: "q \<notin> emitted st"
    and p: "get_person wd q = Inr p"
    and f: "if truthy (father_qid p) \<and> the (father_qid p) \<in> all_qids st
            then emit_post wd (the (father_qid p)) st st1 else st1 = st"
    and m: "if truthy (mother_qid p) \<and> the (mother_qid p) \<in> all_qids st1
            then emit_post wd (the (mother_qid p)) st1 st2 else st2 = st1"
    and pe: "print_entry wd cfg q p st2 = Inr st'"
  shows "emit_post wd q0 st st'"
proof -
  let ?A = "all_qids st"
  let ?R = "parent_rel wd ?A"
  let ?fc = "truthy (father_qid p) \<and> the (father_qid p) \<in> ?A"
  let ?mc = "truthy (mother_qid p) \<and> the (mother_qid p) \<in> ?A"
  note F = emit_post_parent [OF f inv]
  note M = emit_post_parent [OF m F(1)]
  have A1: "all_qids st1 = ?A" and A2: "all_qids st2 = ?A" using F(2) M(2) by simp_all
  have nqq: "normalize_qid q = Inr q" using nq by (rule normalize_qid_idem)
  have qp: "qid p = q" using get_person_qid [OF p] nqq by simp
  note inv2 = M(1)
  have e2: "set (printed_qids (stdout st2)) = emitted st2"
    and b2: "\<forall>x \<in> emitted st2. \<exists>c. qid_to_char_id st2 x = Some c \<and> (c, x) \<in> set (headers (stdout st2))"
    and c2: "each_after (\<lambda>ys q. set (in_set_parents wd ?A q) \<subseteq> set ys) (printed_qids (stdout st2))"
    and d2: "each_after (entry_ok wd ?A) (stdout st2)"
    using inv2 unfolding emit_inv_def A2 by blast+
  from print_entry_Inr(1) [OF pe qp nqq] obtain c ls rest where
    out: "stdout st' = stdout st2 @ (if emitted st2 \<noteq> {} then [Blank] else []) @ [Entry ls]"
    and ls: "ls = Header c (label_ja p) q # rest"
    and cq: "qid_to_char_id st' q = Some c"
    and fr: "if truthy (father_qid p)
          then \<exists>nf f. normalize_qid (the (father_qid p)) = Inr nf \<and> qid_to_char_id st' nf = Some f
                \<and> father_refs ls = [f]
          else father_refs ls = []"
    and mr: "if ?mc
          then \<exists>nm m. normalize_qid (the (mother_qid p)) = Inr nm \<and> qid_to_char_id st' nm = Some m
                \<and> mother_refs ls = [m]
          else mother_refs ls = []"
    unfolding A2 by blast
  note em = print_entry_Inr(2) [OF pe qp nqq]
  note fr' = print_entry_Inr(3,4,5) [OF pe qp nqq]
  note memo = print_entry_Inr(6) [OF pe qp nqq]
  define B where "B = (if emitted st2 \<noteq> {} then [Blank] else [])"
  have hB0: "headers B = []" by (cases "emitted st2 = {}") (simp_all add: B_def headers_simps)
  then have hB: "headers (stdout st2 @ B) = headers (stdout st2)"
    by (simp add: headers_simps)
  have out': "stdout st' = (stdout st2 @ B) @ [Entry (Header c (label_ja p) q # rest)]"
    using out ls by (simp add: B_def)
  have pq: "printed_qids (stdout st') = printed_qids (stdout st2) @ [q]"
    unfolding out' by (simp add: printed_qids_def headers_simps hB0)
  have hd': "headers (stdout st') = headers (stdout st2) @ [(c, q)]"
    unfolding out' by (simp add: headers_simps hB0)
  text \<open>The parents in the set have been emitted, with their identifiers in a header.\<close>
  have fpar: "\<exists>n. normalize_qid (the (father_qid p)) = Inr n \<and> n \<in> emitted st2
      \<and> (\<forall>x \<in> emitted st1 - emitted st. (x, n) \<in> ?R\<^sup>*)" if ?fc
    using F(7) [OF that] M(5) by blast
  have mpar: "\<exists>n. normalize_qid (the (mother_qid p)) = Inr n \<and> n \<in> emitted st2
      \<and> (\<forall>x \<in> emitted st2 - emitted st1. (x, n) \<in> ?R\<^sup>*)" if ?mc
    using M(7) that unfolding A1 by blast
  have par: "set (in_set_parents wd ?A q) \<subseteq> emitted st2"
  proof
    fix x assume "x \<in> set (in_set_parents wd ?A q)"
    from in_set_parents_cases [OF p this] fpar mpar show "x \<in> emitted st2" by auto
  qed
  have new: "(x, q) \<in> ?R\<^sup>+" if x: "x \<in> emitted st2 - emitted st" for x
  proof (cases "x \<in> emitted st1")
    case True
    with x have x1: "x \<in> emitted st1 - emitted st" by simp
    then have fc: ?fc using F(8) by blast
    from fpar [OF fc] x1 obtain n where n: "normalize_qid (the (father_qid p)) = Inr n" "(x, n) \<in> ?R\<^sup>*"
      by blast
    from in_set_parents_father [OF p _ _ n(1)] fc have "(n, q) \<in> ?R" by simp
    with n(2) show ?thesis by (rule rtrancl_into_trancl1)
  next
    case False
    with x have x2: "x \<in> emitted st2 - emitted st1" by simp
    then have mc: ?mc using M(8) unfolding A1 by blast
    from mpar [OF mc] x2 obtain n where n: "normalize_qid (the (mother_qid p)) = Inr n" "(x, n) \<in> ?R\<^sup>*"
      by blast
    from in_set_parents_mother [OF p _ _ n(1)] mc have "(n, q) \<in> ?R" by simp
    with n(2) show ?thesis by (rule rtrancl_into_trancl1)
  qed
  have i1: "set (printed_qids (stdout st')) = emitted st'"
    using pq e2 em by auto
  have i2: "\<forall>x \<in> emitted st'. \<exists>c. qid_to_char_id st' x = Some c \<and> (c, x) \<in> set (headers (stdout st'))"
  proof
    fix x assume "x \<in> emitted st'"
    then consider "x = q" | "x \<in> emitted st2" using em by auto
    then show "\<exists>c. qid_to_char_id st' x = Some c \<and> (c, x) \<in> set (headers (stdout st'))"
    proof cases
      case 1
      with cq hd' show ?thesis by simp
    next
      case 2
      with b2 obtain cx where "qid_to_char_id st2 x = Some cx" "(cx, x) \<in> set (headers (stdout st2))" by blast
      with memo hd' show ?thesis by auto
    qed
  qed
  have i3: "each_after (\<lambda>ys q. set (in_set_parents wd ?A q) \<subseteq> set ys) (printed_qids (stdout st'))"
    unfolding pq each_after_snoc using c2 par e2 by simp
  have eh: "entry_header (Entry ls) = Some (c, q)" by (simp add: ls)
  have eok: "entry_ok wd ?A (stdout st2 @ B) (Entry ls)"
  proof -
    have f1: "if truthy (father_qid p) then length (father_refs ls) = 1 else father_refs ls = []"
      using fr by (auto split: if_splits)
    have f2: "case normalize_qid (the (father_qid p)) of
                Inl err \<Rightarrow> False
              | Inr nf \<Rightarrow> (hd (father_refs ls), nf) \<in> set (headers (stdout st2))" if fc: ?fc
    proof -
      from fr fc obtain nf f where nf: "normalize_qid (the (father_qid p)) = Inr nf"
        "qid_to_char_id st' nf = Some f" "father_refs ls = [f]" by auto
      from fpar [OF fc] nf(1) have "nf \<in> emitted st2" by auto
      with b2 obtain cf where "qid_to_char_id st2 nf = Some cf" "(cf, nf) \<in> set (headers (stdout st2))" by blast
      with memo nf show ?thesis by auto
    qed
    have m1: "if ?mc
              then length (mother_refs ls) = 1 \<and>
                   (case normalize_qid (the (mother_qid p)) of
                      Inl err \<Rightarrow> False
                    | Inr nm \<Rightarrow> (hd (mother_refs ls), nm) \<in> set (headers (stdout st2)))
              else mother_refs ls = []"
    proof (cases ?mc)
      case mc: True
      with mr obtain nm m where nm: "normalize_qid (the (mother_qid p)) = Inr nm"
        "qid_to_char_id st' nm = Some m" "mother_refs ls = [m]" by auto
      from mpar [OF mc] nm(1) have "nm \<in> emitted st2" by auto
      with b2 obtain cm where "qid_to_char_id st2 nm = Some cm" "(cm, nm) \<in> set (headers (stdout st2))" by blast
      with memo nm mc show ?thesis by auto
    next
      case False
      with mr show ?thesis by simp
    qed
    show ?thesis
      unfolding entry_ok_def hB using p f1 f2 m1 eh by (simp split: if_splits)
  qed
  have bok: "each_after (entry_ok wd ?A) (stdout st2 @ B)"
    using d2 by (simp add: B_def each_after_snoc entry_ok_def)
  have i4: "each_after (entry_ok wd ?A) (stdout st')"
    unfolding out' ls [symmetric] each_after_snoc using bok eok by simp
  have I: "emit_inv wd st'"
    unfolding emit_inv_def fr'(1) A2 using i1 i2 i3 i4 by simp
  have sub: "emitted st \<subseteq> emitted st'" using F(5) M(5) em by auto
  have reach: "\<forall>x \<in> emitted st' - emitted st. (x, q) \<in> ?R\<^sup>*"
  proof
    fix x assume "x \<in> emitted st' - emitted st"
    then consider "x = q" | "x \<in> emitted st2 - emitted st" using em by auto
    then show "(x, q) \<in> ?R\<^sup>*"
    proof cases
      case 1 then show ?thesis by simp
    next
      case 2 from new [OF this] show ?thesis by (rule trancl_into_rtrancl)
    qed
  qed
  have dist: "distinct (printed_qids (stdout st'))"
    if ac: "acyclic ?R" and d: "distinct (printed_qids (stdout st))"
  proof -
    have d1: "distinct (printed_qids (stdout st1))" using F(6) [OF ac d] .
    have d2': "distinct (printed_qids (stdout st2))" using M(6) ac d1 unfolding A1 by simp
    have "q \<notin> emitted st2"
    proof
      assume "q \<in> emitted st2"
      with ne have "q \<in> emitted st2 - emitted st" by simp
      from new [OF this] ac show False by (simp add: acyclic_def)
    qed
    with d2' e2 show ?thesis unfolding pq by simp
  qed
  show ?thesis
    unfolding emit_post_def using I fr' A2 M(3,4) F(3,4) sub nq em reach dist by auto
qed

lemma emit_parents_first_unfold:
  "normalize_qid q0 = Inr q \<Longrightarrow> q \<notin> emitted st \<Longrightarrow> get_person wd q = Inr p \<Longrightarrow>
   emit_parents_first wd cfg (Suc frames) q0 st =
     (case (if truthy (father_qid p) \<and> the (father_qid p) \<in> all_qids st
            then emit_parents_first wd cfg frames (the (father_qid p)) st
            else Inr st) of
        Inl e \<Rightarrow> Inl e
      | Inr st1 \<Rightarrow>
          (case (if truthy (mother_qid p) \<and> the (mother_qid p) \<in> all_qids st1
                 then emit_parents_first wd cfg frames (the (mother_qid p)) st1
                 else Inr st1) of
             Inl e \<Rightarrow> Inl e
           | Inr st2 \<Rightarrow> print_entry wd cfg q p st2))"
  by (simp add: emit_parents_first.simps)

text \<open>Every call that returns a state keeps the invariant of the output.\<close>

lemma emit_parents_first_post:
  "emit_parents_first wd cfg frames q0 st = Inr st' \<Longrightarrow> emit_inv wd st \<Longrightarrow> emit_post wd q0 st st'"
proof (induction wd cfg frames q0 st arbitrary: st' rule: emit_parents_first.induct)
  case (1 wd cfg q0 st)
  then show ?case by (simp add: emit_parents_first.simps)
next
  case (2 wd cfg frames q0 st)
  note res = "2.prems"(1) and inv = "2.prems"(2)
  from res obtain q where nq: "normalize_qid q0 = Inr q"
    by (cases "normalize_qid q0") (auto simp: emit_parents_first.simps)
  show ?case
  proof (cases "q \<in> emitted st")
    case True
    with res nq have "st' = st" by (simp add: emit_parents_first.simps)
    with inv nq True show ?thesis by (simp add: emit_post_skip)
  next
    case False
    from res nq False obtain p where p: "get_person wd q = Inr p"
      by (cases "get_person wd q") (auto simp: emit_parents_first.simps)
    let ?fc = "truthy (father_qid p) \<and> the (father_qid p) \<in> all_qids st"
    define rf where "rf = (if ?fc then emit_parents_first wd cfg frames (the (father_qid p)) st else Inr st)"
    from res have b1: "(case rf of
        Inl e \<Rightarrow> Inl e
      | Inr st1 \<Rightarrow>
          (case (if truthy (mother_qid p) \<and> the (mother_qid p) \<in> all_qids st1
                 then emit_parents_first wd cfg frames (the (mother_qid p)) st1
                 else Inr st1) of
             Inl e \<Rightarrow> Inl e
           | Inr st2 \<Rightarrow> print_entry wd cfg q p st2)) = Inr st'"
      unfolding emit_parents_first_unfold [OF nq False p] rf_def .
    then obtain st1 where r1: "rf = Inr st1" by (cases rf) auto
    define rm where "rm = (if truthy (mother_qid p) \<and> the (mother_qid p) \<in> all_qids st1
             then emit_parents_first wd cfg frames (the (mother_qid p)) st1 else Inr st1)"
    from b1 r1 have b2: "(case rm of Inl e \<Rightarrow> Inl e | Inr st2 \<Rightarrow> print_entry wd cfg q p st2) = Inr st'"
      by (simp add: rm_def)
    then obtain st2 where r2: "rm = Inr st2" by (cases rm) auto
    from b2 r2 have pe: "print_entry wd cfg q p st2 = Inr st'" by simp
    have f: "if ?fc then emit_post wd (the (father_qid p)) st st1 else st1 = st"
    proof (cases ?fc)
      case True
      with r1 have "emit_parents_first wd cfg frames (the (father_qid p)) st = Inr st1"
        by (simp add: rf_def)
      from "2.IH"(1) [OF nq False p True this inv] True show ?thesis by simp
    next
      case False
      with r1 show ?thesis by (auto simp: rf_def)
    qed
    note inv1 = emit_post_parent(1) [OF f inv]
    have m: "if truthy (mother_qid p) \<and> the (mother_qid p) \<in> all_qids st1
             then emit_post wd (the (mother_qid p)) st1 st2 else st2 = st1"
    proof (cases "truthy (mother_qid p) \<and> the (mother_qid p) \<in> all_qids st1")
      case True
      with r2 have "emit_parents_first wd cfg frames (the (mother_qid p)) st1 = Inr st2"
        by (simp add: rm_def)
      from "2.IH"(2) [OF nq False p r1 [unfolded rf_def] True this inv1] True show ?thesis by simp
    next
      case False
      with r2 show ?thesis by (auto simp: rm_def)
    qed
    from emit_node [OF inv nq False p f m pe] show ?thesis .
  qed
qed

lemma emit_post_each: "emit_post wd q0 st st' \<Longrightarrow> each_post wd [q0] st st'"
  unfolding emit_post_def each_post_def by auto

lemma each_post_trans:
  assumes "each_post wd xs st st1" "each_post wd ys st1 st2"
  shows "each_post wd (xs @ ys) st st2"
proof -
  have a: "all_qids st1 = all_qids st" using assms(1) unfolding each_post_def by blast
  have "emitted st1 \<subseteq> emitted st2" using assms(2) unfolding each_post_def by blast
  moreover have "\<forall>x \<in> set xs. \<exists>n. normalize_qid x = Inr n \<and> n \<in> emitted st1"
    using assms(1) unfolding each_post_def by blast
  ultimately have x: "\<forall>x \<in> set xs. \<exists>n. normalize_qid x = Inr n \<and> n \<in> emitted st2" by blast
  have y: "\<forall>x \<in> set ys. \<exists>n. normalize_qid x = Inr n \<and> n \<in> emitted st2"
    using assms(2) unfolding each_post_def by blast
  from x y have xy: "\<forall>x \<in> set (xs @ ys). \<exists>n. normalize_qid x = Inr n \<and> n \<in> emitted st2" by auto
  show ?thesis
    unfolding each_post_def using assms [unfolded each_post_def a] xy a by auto
qed

lemma emit_each_post:
  "emit_each wd cfg frames qs st = Inr st' \<Longrightarrow> emit_inv wd st \<Longrightarrow> each_post wd qs st st'"
proof (induction qs arbitrary: st)
  case Nil
  then show ?case by (simp add: each_post_def)
next
  case (Cons q qs)
  from Cons.prems(1) obtain st1 where r1: "emit_parents_first wd cfg frames q st = Inr st1"
    by (cases "emit_parents_first wd cfg frames q st") auto
  from Cons.prems(1) r1 have rest: "emit_each wd cfg frames qs st1 = Inr st'" by simp
  from emit_parents_first_post [OF r1 Cons.prems(2)] have p1: "emit_post wd q st st1" .
  then have i1: "emit_inv wd st1" by (simp add: emit_post_def)
  from each_post_trans [OF emit_post_each [OF p1] Cons.IH [OF rest i1]] show ?case by simp
qed

lemma emit_all_post:
  assumes r: "emit_all wd cfg frames inc root st = Inr st'" and inv: "emit_inv wd st"
    and fin: "finite (descendant_qids st)" "finite (ancestor_qids st)"
  shows "\<exists>qs. set qs = requested inc root st \<and> each_post wd qs st st'"
proof (cases inc)
  case True
  with r obtain st1 where r1: "emit_parents_first wd cfg frames root st = Inr st1"
    by (cases "emit_parents_first wd cfg frames root st") (auto simp: emit_all_def)
  from r True r1 have rest: "emit_each wd cfg frames (sorted_list_of_set (descendant_qids st1)) st1 = Inr st'"
    by (simp add: emit_all_def)
  from emit_parents_first_post [OF r1 inv] have p1: "emit_post wd root st st1" .
  then have i1: "emit_inv wd st1" and d1: "descendant_qids st1 = descendant_qids st"
    by (simp_all add: emit_post_def)
  from each_post_trans [OF emit_post_each [OF p1] emit_each_post [OF rest i1]]
  have "each_post wd (root # sorted_list_of_set (descendant_qids st)) st st'" by (simp add: d1)
  moreover have "set (root # sorted_list_of_set (descendant_qids st)) = requested inc root st"
    using fin True by (simp add: requested_def)
  ultimately show ?thesis by blast
next
  case False
  with r have "emit_each wd cfg frames (sorted_list_of_set (ancestor_qids st)) st = Inr st'"
    by (simp add: emit_all_def)
  from emit_each_post [OF this inv] fin False show ?thesis
    by (auto simp: requested_def intro!: exI [of _ "sorted_list_of_set (ancestor_qids st)"])
qed

lemma emit_inv_fresh: "emitted st = {} \<Longrightarrow> stdout st = [] \<Longrightarrow> emit_inv wd st"
  by (simp add: emit_inv_def printed_qids_simps headers_simps each_after_Nil)

lemma desc_frame_refl: "desc_frame st st"
  by (simp add: desc_frame_def)

lemma desc_frame_trans: "desc_frame a b \<Longrightarrow> desc_frame b c \<Longrightarrow> desc_frame a c"
  by (simp add: desc_frame_def)

lemma gather_descendants_frame:
  "\<forall>st'. gather_descendants_alive wd cfg q rem st = Inr st' \<longrightarrow> desc_frame st st'"
  "\<forall>st'. descendants_loop wd cfg cs rem st = Inr st' \<longrightarrow> desc_frame st st'"
proof (induction wd cfg q rem st and wd cfg cs rem st rule: gather_descendants_alive_descendants_loop.induct)
  case (1 wd cfg q rem st)
  show ?case
  proof (intro allI impI)
    fix st'
    assume g: "gather_descendants_alive wd cfg q rem st = Inr st'"
    show "desc_frame st st'"
    proof (cases "rem \<le> 0")
      case True
      with g show ?thesis by (simp add: gather_descendants_alive.simps desc_frame_refl)
    next
      case False
      with g obtain cs where cs: "fetch_children_qids wd q = Inr cs"
        and l: "descendants_loop wd cfg cs rem (st\<lparr>descendant_calls := descendant_calls st @ [(q, rem)]\<rparr>) = Inr st'"
        by (auto simp: gather_descendants_alive.simps split: sum.splits)
      from "1.IH" [OF False cs] l show ?thesis by (simp add: desc_frame_def)
    qed
  qed
next
  case (2 wd cfg rem st)
  show ?case by (simp add: desc_frame_refl)
next
  case (3 wd cfg raw cs rem st)
  show ?case
  proof (intro allI impI)
    fix st'
    assume l: "descendants_loop wd cfg (raw # cs) rem st = Inr st'"
    then obtain p where p: "get_person wd raw = Inr p" by (auto split: sum.splits)
    show "desc_frame st st'"
    proof (cases "is_alive_on p CUTOFF_DATE (descendants_require_birth cfg)")
      case False
      with l p have "descendants_loop wd cfg cs rem st = Inr st'" by simp
      with "3.IH"(1) [OF p False] show ?thesis by blast
    next
      case alive: True
      then have nn: "\<not> \<not> is_alive_on p CUTOFF_DATE (descendants_require_birth cfg)" by simp
      show ?thesis
      proof (cases "qid p \<in> descendant_qids st")
        case True
        with l p alive have "descendants_loop wd cfg cs rem st = Inr st'" by simp
        with "3.IH"(2) [OF p nn True] show ?thesis by blast
      next
        case False
        from l p alive False obtain st1 where
          g: "gather_descendants_alive wd cfg (qid p) (rem - 1)
                (st\<lparr>descendant_qids := insert (qid p) (descendant_qids st)\<rparr>) = Inr st1"
          and l2: "descendants_loop wd cfg cs rem st1 = Inr st'"
          by (auto split: sum.splits)
        from "3.IH"(3) [OF p nn False] g
        have f1: "desc_frame (st\<lparr>descendant_qids := insert (qid p) (descendant_qids st)\<rparr>) st1" by blast
        from "3.IH"(4) [OF p nn False g] l2 have f2: "desc_frame st1 st'" by blast
        from f1 f2 show ?thesis by (simp add: desc_frame_def)
      qed
    qed
  qed
qed

lemma gather_ancestors_finite:
  assumes "gather_ancestors wd cfg inc q0 depth st = Inr st'" "finite (ancestor_qids st)"
  shows "finite (ancestor_qids st')"
proof -
  from gather_ancestors_step [OF assms(1)] obtain new where s: "anc_step wd cfg inc depth st st' new"
    by blast
  then have a: "ancestor_qids st' = ancestor_qids st \<union>
            {q. \<exists>d p. (q, d) \<in> set new \<and> get_person wd q = Inr p \<and>
                 (if d = 0 then inc else is_alive_on p CUTOFF_DATE True)}"
    unfolding anc_step_def by blast
  have "{q. \<exists>d p. (q, d) \<in> set new \<and> get_person wd q = Inr p \<and>
                 (if d = 0 then inc else is_alive_on p CUTOFF_DATE True)} \<subseteq> fst ` set new"
    by force
  then have "finite {q. \<exists>d p. (q, d) \<in> set new \<and> get_person wd q = Inr p \<and>
                 (if d = 0 then inc else is_alive_on p CUTOFF_DATE True)}"
    by (rule finite_subset) simp
  with a assms(2) show ?thesis by simp
qed

text \<open>The state the collection hands to the emission: nothing emitted, nothing printed, and
  finitely many ancestors and descendants.\<close>

lemma collect_fresh:
  assumes "collect wd cfg root = Inr (inc, r, st)"
  shows "emitted st = {}" "stdout st = []" "finite (ancestor_qids st)" "finite (descendant_qids st)"
proof -
  from assms obtain p st1 st2 where
    ga: "gather_ancestors wd cfg inc r 0 init_state = Inr st1"
    and gd: "(if inc then gather_descendants_alive wd cfg r (max_descendant_depth cfg) st1 else Inr st1) = Inr st2"
    and ef: "(if ensure_fathers_depth cfg > 0
      then ensure_fathers wd (nat (ensure_fathers_depth cfg)) (ancestor_qids st2 \<union> descendant_qids st2)
             (st2\<lparr>all_qids := ancestor_qids st2 \<union> descendant_qids st2\<rparr>)
      else Inr (st2\<lparr>all_qids := ancestor_qids st2 \<union> descendant_qids st2\<rparr>)) = Inr st"
    by (rule collect_Inr)
  note f1 = gather_ancestors_frame [OF ga]
  have a1: "finite (ancestor_qids st1)"
    by (rule gather_ancestors_finite [OF ga]) (simp add: init_state_def)
  have d1: "finite (descendant_qids st1)" "emitted st1 = {}" "stdout st1 = []"
    using f1 by (simp_all add: init_state_def)
  have f2: "desc_frame st1 st2"
  proof (cases inc)
    case True
    with gd gather_descendants_frame(1) show ?thesis by auto
  next
    case False
    with gd show ?thesis by (simp add: desc_frame_refl)
  qed
  with a1 d1 have s2: "finite (ancestor_qids st2)" "finite (descendant_qids st2)"
    "emitted st2 = {}" "stdout st2 = []"
    by (simp_all add: desc_frame_def)
  let ?s3 = "st2\<lparr>all_qids := ancestor_qids st2 \<union> descendant_qids st2\<rparr>"
  have "emitted st = emitted ?s3 \<and> stdout st = stdout ?s3 \<and> ancestor_qids st = ancestor_qids ?s3
      \<and> descendant_qids st = descendant_qids ?s3"
  proof (cases "ensure_fathers_depth cfg > 0")
    case True
    with ef ensure_fathers_frame [of wd "nat (ensure_fathers_depth cfg)" _ ?s3 st] show ?thesis by auto
  next
    case False
    with ef show ?thesis by auto
  qed
  with s2 show "emitted st = {}" "stdout st = []" "finite (ancestor_qids st)" "finite (descendant_qids st)"
    by simp_all
qed

lemma each_after_split:
  "each_after P xs \<Longrightarrow> xs = ys @ x # zs \<Longrightarrow> P ys x"
  by (auto simp: each_after_def)


section \<open>The Topological Emitter: example runs\<close>

lemma chain_persons:
  "get_person wd_chain ''Q1'' = Inr \<lparr>qid = ''Q1'', label_en = None, label_ja = None,
     birth = Some ''1430-05-01'', death = None, father_qid = Some ''Q2'', mother_qid = None,
     birth_place_en = None\<rparr>"
  "get_person wd_chain ''Q2'' = Inr \<lparr>qid = ''Q2'', label_en = None, label_ja = None,
     birth = Some ''1405-01-01'', death = None, father_qid = Some ''Q3'', mother_qid = None,
     birth_place_en = None\<rparr>"
  "get_person wd_chain ''Q3'' = Inr \<lparr>qid = ''Q3'', label_en = None, label_ja = None,
     birth = Some ''1370-01-01'', death = None, father_qid = None, mother_qid = None,
     birth_place_en = None\<rparr>"
  by (simp_all add: get_person_def fetch_person_def read_person_simps norm_Qs wd_chain_def parents_row_def rsplit_last_def)

lemma chain_children: "fetch_children_qids wd_chain ''Q1'' = Inr []"
  by (simp add: fetch_children_qids_def read_children_simps List.map_filter_simps norm_Qs wd_chain_def)

lemma collect_chain: "collect wd_chain cfg_default ''Q1'' = Inr (True, ''Q1'', chain_collected)"
  by (simp add: collect_def gather_ancestors.simps gather_descendants_alive.simps norm_Qs chain_persons
      chain_children alive_examples cfg_default_def init_state_def chain_collected_def insert_commute)

lemma eu_dates:
  "iso_to_eu_date (Some ''1370-01-01'') = Some ''1370.1.1''"
  "iso_to_eu_date (Some ''1400-01-01'') = Some ''1400.1.1''"
  "iso_to_eu_date (Some ''1405-01-01'') = Some ''1405.1.1''"
  "iso_to_eu_date (Some ''1430-05-01'') = Some ''1430.5.1''"
  "iso_to_eu_date (Some ''1440-01-01'') = Some ''1440.1.1''"
  "iso_to_eu_date None = None" "parse_iso_date None = None"
  "parse_iso_date (Some ''1440-01-01'') = Some (Date 1440 1 1)"
  by (simp_all add: date_defs is_digit_def in_range_def)

lemma emit_chain:
  "emit_all wd_chain cfg_default (Suc (Suc (Suc n))) True ''Q1'' chain_collected = Inr chain_final"
  by (simp add: emit_all_def emit_parents_first.simps print_entry_def id_for_qid_def
      render_character_entry_def make_character_id_from_person_def make_name_token_def
      norm_Qs chain_persons eu_dates cfg_default_def init_state_def chain_collected_def chain_final_def
      chain_q1_lines_def chain_q2_lines_def chain_q3_lines_def
      or_empty_def strip_def lower_def lower_char_def capitals_def smalls_def Let_def)

lemma frames_1000: "Suc (Suc (Suc 997)) = 1000" "Suc (Suc 998) = 1000" "Suc 999 = 1000"
  by simp_all

lemma chain_printed: "printed_qids (stdout chain_final) = [''Q3'', ''Q2'', ''Q1'']"
  by (simp add: chain_final_def printed_qids_def headers_simps chain_q1_lines_def chain_q2_lines_def
      chain_q3_lines_def)

lemma chain_in_set:
  "in_set_parents wd_chain (all_qids chain_collected) ''Q1'' = [''Q2'']"
  "in_set_parents wd_chain (all_qids chain_collected) ''Q2'' = [''Q3'']"
  "in_set_parents wd_chain (all_qids chain_collected) ''Q3'' = []"
  by (simp_all add: in_set_parents_def parent_in_set_def chain_persons norm_Qs chain_collected_def)

lemma cycle_persons:
  "get_person wd_cycle ''Q1'' = Inr \<lparr>qid = ''Q1'', label_en = None, label_ja = None,
     birth = Some ''1430-05-01'', death = None, father_qid = Some ''Q2'', mother_qid = None,
     birth_place_en = None\<rparr>"
  "get_person wd_cycle ''Q2'' = Inr \<lparr>qid = ''Q2'', label_en = None, label_ja = None,
     birth = Some ''1405-01-01'', death = None, father_qid = Some ''Q1'', mother_qid = None,
     birth_place_en = None\<rparr>"
  by (simp_all add: get_person_def fetch_person_def read_person_simps norm_Qs wd_cycle_def parents_row_def rsplit_last_def)

lemma gap_persons:
  "get_person wd_gap ''Q1'' = Inr \<lparr>qid = ''Q1'', label_en = None, label_ja = None,
     birth = Some ''1430-05-01'', death = None, father_qid = None, mother_qid = Some ''Q4'',
     birth_place_en = None\<rparr>"
  "get_person wd_gap ''Q4'' = Inr \<lparr>qid = ''Q4'', label_en = None, label_ja = None,
     birth = Some ''1405-01-01'', death = Some ''1440-01-01'', father_qid = Some ''Q3'', mother_qid = None,
     birth_place_en = None\<rparr>"
  "get_person wd_gap ''Q3'' = Inr \<lparr>qid = ''Q3'', label_en = None, label_ja = None,
     birth = Some ''1370-01-01'', death = None, father_qid = None, mother_qid = None,
     birth_place_en = None\<rparr>"
  by (simp_all add: get_person_def fetch_person_def read_person_simps norm_Qs wd_gap_def parents_row_def rsplit_last_def)

lemma dangling_persons:
  "get_person wd_dangling ''Q1'' = Inr \<lparr>qid = ''Q1'', label_en = None, label_ja = None,
     birth = Some ''1430-05-01'', death = None, father_qid = Some ''Q2'', mother_qid = None,
     birth_place_en = None\<rparr>"
  "get_person wd_dangling ''Q2'' = Inr \<lparr>qid = ''Q2'', label_en = None, label_ja = None,
     birth = Some ''1400-01-01'', death = Some ''1440-01-01'', father_qid = Some ''Q5'', mother_qid = None,
     birth_place_en = None\<rparr>"
  "get_person wd_dangling ''Q5'' = Inr \<lparr>qid = ''Q5'', label_en = None, label_ja = None,
     birth = None, death = None, father_qid = None, mother_qid = None, birth_place_en = None\<rparr>"
  by (simp_all add: get_person_def fetch_person_def read_person_simps norm_Qs wd_dangling_def parents_row_def rsplit_last_def
      no_person_def)

lemma no_children:
  "fetch_children_qids wd_cycle ''Q1'' = Inr []"
  "fetch_children_qids wd_gap ''Q1'' = Inr []"
  "fetch_children_qids wd_dangling ''Q1'' = Inr []"
  by (simp_all add: fetch_children_qids_def read_children_simps List.map_filter_simps norm_Qs
      wd_cycle_def wd_gap_def wd_dangling_def)

lemma alive_more:
  "is_alive_on \<lparr>qid = q, label_en = None, label_ja = None,
     birth = Some ''1405-01-01'', death = Some ''1440-01-01'', father_qid = f, mother_qid = m,
     birth_place_en = None\<rparr> CUTOFF_DATE rb = False"
  "is_alive_on \<lparr>qid = q, label_en = None, label_ja = None,
     birth = Some ''1400-01-01'', death = Some ''1440-01-01'', father_qid = f, mother_qid = m,
     birth_place_en = None\<rparr> CUTOFF_DATE rb = False"
  "is_alive_on \<lparr>qid = q, label_en = None, label_ja = None,
     birth = None, death = None, father_qid = f, mother_qid = m,
     birth_place_en = None\<rparr> CUTOFF_DATE True = False"
  by (simp_all add: is_alive_on_def date_defs is_digit_def in_range_def)

lemma collect_cycle: "collect wd_cycle cfg_default ''Q1'' = Inr (True, ''Q1'', cycle_collected)"
  by (simp add: collect_def gather_ancestors.simps gather_descendants_alive.simps norm_Qs cycle_persons
      no_children alive_examples cfg_default_def init_state_def cycle_collected_def insert_commute)

lemma collect_gap: "collect wd_gap cfg_default ''Q1'' = Inr (True, ''Q1'', gap_collected)"
  by (simp add: collect_def gather_ancestors.simps gather_descendants_alive.simps norm_Qs gap_persons
      no_children alive_examples alive_more cfg_default_def init_state_def gap_collected_def insert_commute)

lemma collect_dangling: "collect wd_dangling cfg_default ''Q1'' = Inr (True, ''Q1'', dangling_collected)"
  by (simp add: collect_def gather_ancestors.simps gather_descendants_alive.simps norm_Qs dangling_persons
      no_children alive_examples alive_more cfg_default_def init_state_def dangling_collected_def
      insert_commute)

lemma emit_gap: "emit_all wd_gap cfg_default (Suc n) True ''Q1'' gap_collected = Inr gap_final"
  by (simp add: emit_all_def emit_parents_first.simps print_entry_def id_for_qid_def
      render_character_entry_def make_character_id_from_person_def make_name_token_def
      norm_Qs gap_persons eu_dates cfg_default_def init_state_def gap_collected_def gap_final_def gap_q1_lines_def
      or_empty_def strip_def lower_def lower_char_def capitals_def smalls_def Let_def)

lemma emit_dangling:
  "emit_all wd_dangling cfg_default (Suc (Suc n)) True ''Q1'' dangling_collected = Inr dangling_final"
  by (simp add: emit_all_def emit_parents_first.simps print_entry_def id_for_qid_def
      render_character_entry_def make_character_id_from_person_def make_name_token_def
      norm_Qs dangling_persons eu_dates cfg_default_def init_state_def dangling_collected_def
      dangling_final_def dangling_q1_lines_def dangling_q2_lines_def or_empty_def strip_def lower_def
      lower_char_def capitals_def smalls_def Let_def no_person_def date_less_def date_le_def CUTOFF_DATE_def)

text \<open>With \<open>Q1\<close> the father of \<open>Q2\<close> and \<open>Q2\<close> the father of \<open>Q1\<close>, both in the set and nothing
  emitted, a call on either identifier nests until no frame is left.\<close>

lemma emit_cycle_raises:
  "emitted st = {} \<Longrightarrow> ''Q1'' \<in> all_qids st \<Longrightarrow> ''Q2'' \<in> all_qids st \<Longrightarrow> q0 = ''Q1'' \<or> q0 = ''Q2'' \<Longrightarrow>
   emit_parents_first wd_cycle cfg frames q0 st = Inl RecursionError"
proof (induction frames arbitrary: q0)
  case 0
  show ?case by (simp add: emit_parents_first.simps)
next
  case (Suc n)
  from Suc.prems(4) show ?case
  proof
    assume q: "q0 = ''Q1''"
    have "emit_parents_first wd_cycle cfg n ''Q2'' st = Inl RecursionError"
      using Suc.prems(1,2,3) by (intro Suc.IH) simp_all
    with q Suc.prems(1,3) show ?thesis by (simp add: emit_parents_first.simps norm_Qs cycle_persons)
  next
    assume q: "q0 = ''Q2''"
    have "emit_parents_first wd_cycle cfg n ''Q1'' st = Inl RecursionError"
      using Suc.prems(1,2,3) by (intro Suc.IH) simp_all
    with q Suc.prems(1,2) show ?thesis by (simp add: emit_parents_first.simps norm_Qs cycle_persons)
  qed
qed

lemma emit_cycle: "emit_all wd_cycle cfg_default frames True ''Q1'' cycle_collected = Inl RecursionError"
  by (simp add: emit_all_def emit_cycle_raises cycle_collected_def init_state_def)

section \<open>The Topological Emitter: order of the output\<close>

text \<open>
  What holds of the order. When the collection returns, the parent links inside the final
  Inclusion Set have no cycle and the emission returns a state, no identifier is printed
  twice, every identifier the emission is started on (the root and the descendants, or the
  ancestors when the root is excluded) is printed, and the parents of a printed identifier
  that are in the final Inclusion Set are printed strictly before it. For the chain of three
  generations the order is grandfather, father, child (\<open>emit_chain\<close>, \<open>chain_printed\<close>).
\<close>

lemma emit_all_order:
  assumes c: "collect wd cfg root = Inr (inc, r, st)"
    and ac: "acyclic (parent_rel wd (all_qids st))"
    and e: "emit_all wd cfg frames inc r st = Inr st'"
  shows "distinct (printed_qids (stdout st'))"
    "\<forall>x \<in> requested inc r st. \<exists>n. normalize_qid x = Inr n \<and> n \<in> set (printed_qids (stdout st'))"
    "\<forall>ys q zs. printed_qids (stdout st') = ys @ q # zs \<longrightarrow>
       set (in_set_parents wd (all_qids st) q) \<subseteq> set ys"
proof -
  note fr = collect_fresh [OF c]
  have inv: "emit_inv wd st" using fr(1,2) by (rule emit_inv_fresh)
  from emit_all_post [OF e inv fr(4) fr(3)]
  obtain qs where qs: "set qs = requested inc r st" and ep: "each_post wd qs st st'" by blast
  from ep have inv': "emit_inv wd st'" and A: "all_qids st' = all_qids st"
    and em: "\<forall>x \<in> set qs. \<exists>n. normalize_qid x = Inr n \<and> n \<in> emitted st'"
    and di: "acyclic (parent_rel wd (all_qids st)) \<longrightarrow> distinct (printed_qids (stdout st)) \<longrightarrow>
          distinct (printed_qids (stdout st'))"
    unfolding each_post_def by blast+
  from inv' have pe: "set (printed_qids (stdout st')) = emitted st'"
    and ea: "each_after (\<lambda>ys q. set (in_set_parents wd (all_qids st') q) \<subseteq> set ys) (printed_qids (stdout st'))"
    unfolding emit_inv_def by blast+
  from di ac fr(2) show "distinct (printed_qids (stdout st'))"
    by (simp add: printed_qids_simps)
  from em qs pe show "\<forall>x \<in> requested inc r st. \<exists>n. normalize_qid x = Inr n \<and> n \<in> set (printed_qids (stdout st'))"
    by simp
  from ea A show "\<forall>ys q zs. printed_qids (stdout st') = ys @ q # zs \<longrightarrow>
          set (in_set_parents wd (all_qids st) q) \<subseteq> set ys"
    by (simp add: each_after_def)
qed

text \<open>
  Claim C1 fails on the code at two inputs. \<open>emit_parents_first\<close> adds an identifier to
  \<open>emitted\<close> after the calls on its parents, so the set is no guard against a cycle
  (\<open>gather_ancestors\<close> adds to \<open>visited_ancestors\<close> before it recurses): over \<open>wd_cycle\<close>, where
  \<open>Q2\<close> is the father of \<open>Q1\<close> and \<open>Q1\<close> the father of \<open>Q2\<close>, the run on \<open>Q1\<close> collects both
  identifiers and ends with \<open>RecursionError\<close>, whatever the number of frames. And a member of
  the Inclusion Set is printed only if it is the root, a descendant, or reached from one of
  them through parents in the set: over \<open>wd_gap\<close> the ancestor \<open>Q3\<close> is alive and in the final
  Inclusion Set, and the only entry printed is that of \<open>Q1\<close>.
\<close>

theorem emitter_cycle_and_unprinted_member:
  "collect wd_cycle cfg_default ''Q1'' = Inr (True, ''Q1'', cycle_collected)
   \<and> all_qids cycle_collected = {''Q1'', ''Q2''}
   \<and> emit_person_with_ancestors_and_descendants wd_cycle cfg_default frames ''Q1'' = Inl RecursionError
   \<and> emit_person_with_ancestors_and_descendants wd_gap cfg_default (Suc frames) ''Q1'' = Inr gap_final
   \<and> ''Q3'' \<in> ancestor_qids gap_final
   \<and> ''Q3'' \<in> all_qids gap_final
   \<and> printed_qids (stdout gap_final) = [''Q1'']"
  by (simp add: emit_person_with_ancestors_and_descendants_def collect_cycle emit_cycle collect_gap
      emit_gap) (simp add: cycle_collected_def gap_final_def gap_collected_def printed_qids_def headers_simps
      gap_q1_lines_def)

section \<open>The Topological Emitter: parent fields\<close>

text \<open>
  Claim C6 as stated fails for the \<open>father\<close> field: \<open>render_character_entry\<close> prints it
  whenever the person has a father identifier, whether or not the father is in the
  Inclusion Set. Over \<open>wd_dangling\<close> the entry of \<open>Q2\<close> has \<open>father = wd_q5\<close>, \<open>Q5\<close> is not in
  the final Inclusion Set and no entry with the identifier \<open>wd_q5\<close> is printed.
\<close>

theorem father_field_dangling:
  "emit_person_with_ancestors_and_descendants wd_dangling cfg_default 1000 ''Q1'' = Inr dangling_final
   \<and> stdout dangling_final = [Entry dangling_q2_lines, Blank, Entry dangling_q1_lines]
   \<and> father_refs dangling_q2_lines = [''wd_q5'']
   \<and> ''Q5'' \<notin> all_qids dangling_final
   \<and> map fst (headers (stdout dangling_final)) = [''wd_q2'', ''wd_q1'']"
  using emit_dangling [of 998]
  by (simp add: emit_person_with_ancestors_and_descendants_def collect_dangling frames_1000)
     (simp add: dangling_final_def dangling_collected_def dangling_q1_lines_def dangling_q2_lines_def
        headers_simps father_refs_def List.map_filter_def)

text \<open>
  Claim C6, amended. In the output of every run that returns, each entry satisfies
  \<open>entry_ok\<close> for the final Inclusion Set and the output before it: the \<open>mother\<close> field is
  present exactly when the mother's identifier is in the final Inclusion Set and then gives
  the local identifier of an entry printed earlier; the \<open>father\<close> field is present exactly
  when the person has a father identifier, and gives the local identifier of an entry
  printed earlier when the father's identifier is in the final Inclusion Set.
\<close>

theorem parent_fields_refer_back:
  assumes c: "collect wd cfg root = Inr (inc, r, st)"
    and e: "emit_all wd cfg frames inc r st = Inr st'"
  shows "\<forall>before e after. stdout st' = before @ e # after \<longrightarrow> entry_ok wd (all_qids st') before e"
proof -
  note fr = collect_fresh [OF c]
  have inv: "emit_inv wd st" using fr(1,2) by (rule emit_inv_fresh)
  from emit_all_post [OF e inv fr(4) fr(3)]
  obtain qs where ep: "each_post wd qs st st'" by blast
  then have "emit_inv wd st'" unfolding each_post_def by blast
  then have "each_after (entry_ok wd (all_qids st')) (stdout st')" unfolding emit_inv_def by blast
  then show ?thesis by (simp add: each_after_def)
qed

text \<open>In the chain, the entry of \<open>Q2\<close> refers to the entry of \<open>Q3\<close> printed before it; over
  \<open>wd_gap\<close> the mother \<open>Q4\<close> is not in the set and the entry of \<open>Q1\<close> has no \<open>mother\<close> field.\<close>

theorem parent_fields_refer_back_witness:
  "collect wd_chain cfg_default ''Q1'' = Inr (True, ''Q1'', chain_collected)
   \<and> emit_all wd_chain cfg_default 1000 True ''Q1'' chain_collected = Inr chain_final
   \<and> stdout chain_final = [Entry chain_q3_lines, Blank] @ Entry chain_q2_lines # [Blank, Entry chain_q1_lines]
   \<and> entry_ok wd_chain (all_qids chain_final) [Entry chain_q3_lines, Blank] (Entry chain_q2_lines)
   \<and> father_refs chain_q2_lines = [''wd_q3'']
   \<and> headers [Entry chain_q3_lines, Blank] = [(''wd_q3'', ''Q3'')]
   \<and> collect wd_gap cfg_default ''Q1'' = Inr (True, ''Q1'', gap_collected)
   \<and> emit_all wd_gap cfg_default 1000 True ''Q1'' gap_collected = Inr gap_final
   \<and> stdout gap_final = [] @ Entry gap_q1_lines # []
   \<and> entry_ok wd_gap (all_qids gap_final) [] (Entry gap_q1_lines)
   \<and> ''Q4'' \<notin> all_qids gap_final
   \<and> mother_refs gap_q1_lines = []"
proof -
  have c1: "emit_all wd_chain cfg_default 1000 True ''Q1'' chain_collected = Inr chain_final"
    using emit_chain [of 997] by (simp add: frames_1000)
  have g1: "emit_all wd_gap cfg_default 1000 True ''Q1'' gap_collected = Inr gap_final"
    using emit_gap [of 999] by (simp add: frames_1000)
  have s1: "stdout chain_final = [Entry chain_q3_lines, Blank] @ Entry chain_q2_lines # [Blank, Entry chain_q1_lines]"
    by (simp add: chain_final_def)
  have s2: "stdout gap_final = [] @ Entry gap_q1_lines # []"
    by (simp add: gap_final_def)
  from parent_fields_refer_back [OF collect_chain c1] s1
  have e1: "entry_ok wd_chain (all_qids chain_final) [Entry chain_q3_lines, Blank] (Entry chain_q2_lines)"
    by blast
  from parent_fields_refer_back [OF collect_gap g1] s2
  have e2: "entry_ok wd_gap (all_qids gap_final) [] (Entry gap_q1_lines)"
    by blast
  have r: "father_refs chain_q2_lines = [''wd_q3'']" "headers [Entry chain_q3_lines, Blank] = [(''wd_q3'', ''Q3'')]"
    "''Q4'' \<notin> all_qids gap_final" "mother_refs gap_q1_lines = []"
    by (simp_all add: chain_q2_lines_def chain_q3_lines_def gap_q1_lines_def father_refs_def mother_refs_def
        List.map_filter_def headers_simps gap_final_def gap_collected_def)
  from collect_chain c1 s1 e1 r collect_gap g1 s2 e2 show ?thesis by blast
qed

section \<open>Errors that end the run\<close>

text \<open>
  Claim C8 fails on the code: \<open>fetch_person\<close> keeps the last path segment of the father and
  mother values as it is, and \<open>gather_ancestors\<close> passes it to \<open>normalize_qid\<close> outside any
  \<open>try\<close>. \<open>fetch_children_qids\<close> filters the child values with the same pattern and skips
  the malformed ones. With a root \<open>Q1\<close> whose father value is not an entity, the run ends
  with the error of \<open>normalize_qid\<close> although the root identifier is well-formed.
\<close>

theorem malformed_parent_ends_run:
  "normalize_qid ''Q1'' = Inr ''Q1''
   \<and> get_person wd_genid ''Q1'' = Inr \<lparr>qid = ''Q1'', label_en = None, label_ja = None,
        birth = Some ''1430-05-01'', death = None, father_qid = Some ''0a1b2c'', mother_qid = None,
        birth_place_en = None\<rparr>
   \<and> emit_person_with_ancestors_and_descendants wd_genid cfg_default frames ''Q1''
        = Inl (ValueError ''Invalid QID: 0a1b2c'')"
proof -
  have p: "get_person wd_genid ''Q1'' = Inr \<lparr>qid = ''Q1'', label_en = None, label_ja = None,
        birth = Some ''1430-05-01'', death = None, father_qid = Some ''0a1b2c'', mother_qid = None,
        birth_place_en = None\<rparr>"
    by (simp add: get_person_def fetch_person_def read_person_simps norm_Qs wd_genid_def parents_row_def
        rsplit_last_def)
  have n: "normalize_qid ''0a1b2c'' = Inl (ValueError ''Invalid QID: 0a1b2c'')"
    by (simp add: normalize_qid_def strip_def is_space_def startswith_def is_digit_def)
  have "collect wd_genid cfg_default ''Q1'' = Inl (ValueError ''Invalid QID: 0a1b2c'')"
    by (simp add: collect_def gather_ancestors.simps norm_Qs p n alive_examples cfg_default_def
        init_state_def)
  with p show ?thesis
    by (simp add: emit_person_with_ancestors_and_descendants_def norm_Qs)
qed

text \<open>
  Claim C7 fails on the code. The \<open>try\<close> blocks hold the query and the first subscripts, the
  statements that read the rows stand after them, so a response that parses and has another
  shape than the service promises can end the run. When \<open>"bindings"\<close> is \<open>null\<close>,
  \<open>fetch_person\<close> returns the person without attributes (the subscript \<open>[0]\<close> raises inside
  the \<open>try\<close>) and \<open>fetch_children_qids\<close> raises \<open>TypeError\<close> at its loop; when a row is \<open>null\<close>
  both raise \<open>AttributeError\<close>; so does \<open>fetch_person\<close> when the father value is a number.
  The run on \<open>Q1\<close> over \<open>wd_null_children\<close>, whose children query answers with \<open>"bindings"\<close>
  \<open>null\<close>, ends with \<open>TypeError\<close>.
\<close>

theorem malformed_response_raises:
  "fetch_person wd_null_bindings ''Q1'' = Inr (no_person ''Q1'')
   \<and> fetch_children_qids wd_null_bindings ''Q1'' = Inl TypeError
   \<and> fetch_person wd_null_row ''Q1'' = Inl AttributeError
   \<and> fetch_children_qids wd_null_row ''Q1'' = Inl AttributeError
   \<and> fetch_person wd_number_father ''Q1'' = Inl AttributeError
   \<and> emit_person_with_ancestors_and_descendants wd_null_children cfg_default frames ''Q1'' = Inl TypeError"
proof -
  have f: "fetch_person wd_null_bindings ''Q1'' = Inr (no_person ''Q1'')"
    "fetch_person wd_null_row ''Q1'' = Inl AttributeError"
    "fetch_person wd_number_father ''Q1'' = Inl AttributeError"
    by (simp_all add: fetch_person_def read_person_def first_binding_def get_value_def rsplit_value_def
        norm_Qs wd_null_bindings_def wd_null_row_def wd_number_father_def null_bindings_def)
  have c: "fetch_children_qids wd_null_bindings ''Q1'' = Inl TypeError"
    "fetch_children_qids wd_null_row ''Q1'' = Inl AttributeError"
    "fetch_children_qids wd_null_children ''Q1'' = Inl TypeError"
    by (simp_all add: fetch_children_qids_def read_children_def children_bindings_def get_value_def
        norm_Qs wd_null_bindings_def wd_null_row_def wd_null_children_def null_bindings_def)
  have p: "get_person wd_null_children ''Q1'' = Inr \<lparr>qid = ''Q1'', label_en = None, label_ja = None,
        birth = Some ''1430-05-01'', death = None, father_qid = None, mother_qid = None,
        birth_place_en = None\<rparr>"
    by (simp add: get_person_def fetch_person_def read_person_simps norm_Qs wd_null_children_def
        parents_row_def)
  have "collect wd_null_children cfg_default ''Q1'' = Inl TypeError"
    by (simp add: collect_def gather_ancestors.simps gather_descendants_alive.simps norm_Qs p c
        alive_examples cfg_default_def init_state_def)
  with f c show ?thesis
    by (simp add: emit_person_with_ancestors_and_descendants_def)
qed

end
